theory Spec2Isabelle
  imports Main "HOL-Library.Word" "HOL-Library.Sublist" "HOL-Library.AList"
begin

section \<open>JavaScript strings and code points\<close>

text \<open>
  A JavaScript string is a sequence of 16-bit UTF-16 code units; \<open>length\<close> counts
  code units and every index of the library (\<open>i\<close>, \<open>m.index\<close>) is a code-unit offset.
  Code points are natural numbers. The names, categories and replacement strings of
  \<open>nonprintable.ts\<close> are ASCII; they are kept as HOL strings and turned into code
  units by \<open>lit\<close> where the source concatenates them with text of the input.
\<close>

type_synonym jsstring = "16 word list"

definition lit :: "string \<Rightarrow> jsstring" where
  "lit s = map (\<lambda>c. of_nat (of_char c)) s"

definition isLeadingSurrogate :: "16 word \<Rightarrow> bool" where
  "isLeadingSurrogate u = (0xD800 \<le> unat u \<and> unat u \<le> 0xDBFF)"

definition isTrailingSurrogate :: "16 word \<Rightarrow> bool" where
  "isTrailingSurrogate u = (0xDC00 \<le> unat u \<and> unat u \<le> 0xDFFF)"

text \<open>
  \<open>String.prototype.codePointAt(pos)\<close>: \<open>undefined\<close> (here \<open>None\<close>) at or beyond the
  end; a leading surrogate followed by a trailing surrogate is read as one supplementary
  code point; any other code unit, a lone surrogate included, is its own code point.
\<close>

definition UTF16SurrogatePairToCodePoint :: "16 word \<Rightarrow> 16 word \<Rightarrow> nat" where
  "UTF16SurrogatePairToCodePoint lead trail =
     (unat lead - 0xD800) * 0x400 + (unat trail - 0xDC00) + 0x10000"

definition codePointAt :: "jsstring \<Rightarrow> nat \<Rightarrow> nat option" where
  "codePointAt s pos =
     (if length s \<le> pos then None
      else if isLeadingSurrogate (s ! pos) \<and> pos + 1 < length s
              \<and> isTrailingSurrogate (s ! (pos + 1))
      then Some (UTF16SurrogatePairToCodePoint (s ! pos) (s ! (pos + 1)))
      else Some (unat (s ! pos)))"

text \<open>
  \<open>String.fromCodePoint(cp)\<close>: one code unit up to U+FFFF, a surrogate pair above.
  JavaScript raises \<open>RangeError\<close> beyond U+10FFFF; every argument the library passes
  is a result of \<open>codePointAt\<close>, which stays below (lemma \<open>codePointAt_le\<close>).
\<close>

definition fromCodePoint :: "nat \<Rightarrow> jsstring" where
  "fromCodePoint cp =
     (if cp \<le> 0xFFFF then [of_nat cp]
      else [of_nat ((cp - 0x10000) div 0x400 + 0xD800),
            of_nat ((cp - 0x10000) mod 0x400 + 0xDC00)])"

section \<open>The non-printable character class\<close>

text \<open>
  \<open>NON_PRINTABLE_REGEX = /[\p{Cc}\p{Cf}\p{Cs}\p{Co}\p{Cn}]/gu\<close> asks the regular
  expression engine for the Unicode general category of a code point. The table of
  general categories belongs to the engine, not to the repository, so every function
  below takes it as the parameter \<open>gc\<close>; \<open>NotC\<close> stands for every category outside
  the five that the expression names.
\<close>

datatype gcat = Cc | Cf | Cs | Co | Cn | NotC

type_synonym ucd = "nat \<Rightarrow> gcat"

definition NON_PRINTABLE_REGEX :: "ucd \<Rightarrow> nat \<Rightarrow> bool" where
  "NON_PRINTABLE_REGEX gc cp = (gc cp \<in> {Cc, Cf, Cs, Co, Cn})"

text \<open>
  Modelled from the spec: the general-category table itself is missing from the
  repository; sections 4.1 and 9 of the specification define membership in Cc, Cf, Cs,
  Co, Cn by the general-category property of the Unicode standard. \<open>C_ranges\<close> lists,
  in ascending order, the ranges of code points that Unicode 14.0.0 puts in one of
  these five categories; \<open>unicode14\<close> is the table used wherever a statement is
  evaluated on a concrete text.
\<close>

definition C_ranges :: "(nat \<times> nat \<times> gcat) list" where
  "C_ranges = [
   (0x0000, 0x001F, Cc), (0x007F, 0x009F, Cc), (0x00AD, 0x00AD, Cf), (0x0378, 0x0379, Cn),
   (0x0380, 0x0383, Cn), (0x038B, 0x038B, Cn), (0x038D, 0x038D, Cn), (0x03A2, 0x03A2, Cn),
   (0x0530, 0x0530, Cn), (0x0557, 0x0558, Cn), (0x058B, 0x058C, Cn), (0x0590, 0x0590, Cn),
   (0x05C8, 0x05CF, Cn), (0x05EB, 0x05EE, Cn), (0x05F5, 0x05FF, Cn), (0x0600, 0x0605, Cf),
   (0x061C, 0x061C, Cf), (0x06DD, 0x06DD, Cf), (0x070E, 0x070E, Cn), (0x070F, 0x070F, Cf),
   (0x074B, 0x074C, Cn), (0x07B2, 0x07BF, Cn), (0x07FB, 0x07FC, Cn), (0x082E, 0x082F, Cn),
   (0x083F, 0x083F, Cn), (0x085C, 0x085D, Cn), (0x085F, 0x085F, Cn), (0x086B, 0x086F, Cn),
   (0x088F, 0x088F, Cn), (0x0890, 0x0891, Cf), (0x0892, 0x0897, Cn), (0x08E2, 0x08E2, Cf),
   (0x0984, 0x0984, Cn), (0x098D, 0x098E, Cn), (0x0991, 0x0992, Cn), (0x09A9, 0x09A9, Cn),
   (0x09B1, 0x09B1, Cn), (0x09B3, 0x09B5, Cn), (0x09BA, 0x09BB, Cn), (0x09C5, 0x09C6, Cn),
   (0x09C9, 0x09CA, Cn), (0x09CF, 0x09D6, Cn), (0x09D8, 0x09DB, Cn), (0x09DE, 0x09DE, Cn),
   (0x09E4, 0x09E5, Cn), (0x09FF, 0x0A00, Cn), (0x0A04, 0x0A04, Cn), (0x0A0B, 0x0A0E, Cn),
   (0x0A11, 0x0A12, Cn), (0x0A29, 0x0A29, Cn), (0x0A31, 0x0A31, Cn), (0x0A34, 0x0A34, Cn),
   (0x0A37, 0x0A37, Cn), (0x0A3A, 0x0A3B, Cn), (0x0A3D, 0x0A3D, Cn), (0x0A43, 0x0A46, Cn),
   (0x0A49, 0x0A4A, Cn), (0x0A4E, 0x0A50, Cn), (0x0A52, 0x0A58, Cn), (0x0A5D, 0x0A5D, Cn),
   (0x0A5F, 0x0A65, Cn), (0x0A77, 0x0A80, Cn), (0x0A84, 0x0A84, Cn), (0x0A8E, 0x0A8E, Cn),
   (0x0A92, 0x0A92, Cn), (0x0AA9, 0x0AA9, Cn), (0x0AB1, 0x0AB1, Cn), (0x0AB4, 0x0AB4, Cn),
   (0x0ABA, 0x0ABB, Cn), (0x0AC6, 0x0AC6, Cn), (0x0ACA, 0x0ACA, Cn), (0x0ACE, 0x0ACF, Cn),
   (0x0AD1, 0x0ADF, Cn), (0x0AE4, 0x0AE5, Cn), (0x0AF2, 0x0AF8, Cn), (0x0B00, 0x0B00, Cn),
   (0x0B04, 0x0B04, Cn), (0x0B0D, 0x0B0E, Cn), (0x0B11, 0x0B12, Cn), (0x0B29, 0x0B29, Cn),
   (0x0B31, 0x0B31, Cn), (0x0B34, 0x0B34, Cn), (0x0B3A, 0x0B3B, Cn), (0x0B45, 0x0B46, Cn),
   (0x0B49, 0x0B4A, Cn), (0x0B4E, 0x0B54, Cn), (0x0B58, 0x0B5B, Cn), (0x0B5E, 0x0B5E, Cn),
   (0x0B64, 0x0B65, Cn), (0x0B78, 0x0B81, Cn), (0x0B84, 0x0B84, Cn), (0x0B8B, 0x0B8D, Cn),
   (0x0B91, 0x0B91, Cn), (0x0B96, 0x0B98, Cn), (0x0B9B, 0x0B9B, Cn), (0x0B9D, 0x0B9D, Cn),
   (0x0BA0, 0x0BA2, Cn), (0x0BA5, 0x0BA7, Cn), (0x0BAB, 0x0BAD, Cn), (0x0BBA, 0x0BBD, Cn),
   (0x0BC3, 0x0BC5, Cn), (0x0BC9, 0x0BC9, Cn), (0x0BCE, 0x0BCF, Cn), (0x0BD1, 0x0BD6, Cn),
   (0x0BD8, 0x0BE5, Cn), (0x0BFB, 0x0BFF, Cn), (0x0C0D, 0x0C0D, Cn), (0x0C11, 0x0C11, Cn),
   (0x0C29, 0x0C29, Cn), (0x0C3A, 0x0C3B, Cn), (0x0C45, 0x0C45, Cn), (0x0C49, 0x0C49, Cn),
   (0x0C4E, 0x0C54, Cn), (0x0C57, 0x0C57, Cn), (0x0C5B, 0x0C5C, Cn), (0x0C5E, 0x0C5F, Cn),
   (0x0C64, 0x0C65, Cn), (0x0C70, 0x0C76, Cn), (0x0C8D, 0x0C8D, Cn), (0x0C91, 0x0C91, Cn),
   (0x0CA9, 0x0CA9, Cn), (0x0CB4, 0x0CB4, Cn), (0x0CBA, 0x0CBB, Cn), (0x0CC5, 0x0CC5, Cn),
   (0x0CC9, 0x0CC9, Cn), (0x0CCE, 0x0CD4, Cn), (0x0CD7, 0x0CDC, Cn), (0x0CDF, 0x0CDF, Cn),
   (0x0CE4, 0x0CE5, Cn), (0x0CF0, 0x0CF0, Cn), (0x0CF3, 0x0CFF, Cn), (0x0D0D, 0x0D0D, Cn),
   (0x0D11, 0x0D11, Cn), (0x0D45, 0x0D45, Cn), (0x0D49, 0x0D49, Cn), (0x0D50, 0x0D53, Cn),
   (0x0D64, 0x0D65, Cn), (0x0D80, 0x0D80, Cn), (0x0D84, 0x0D84, Cn), (0x0D97, 0x0D99, Cn),
   (0x0DB2, 0x0DB2, Cn), (0x0DBC, 0x0DBC, Cn), (0x0DBE, 0x0DBF, Cn), (0x0DC7, 0x0DC9, Cn),
   (0x0DCB, 0x0DCE, Cn), (0x0DD5, 0x0DD5, Cn), (0x0DD7, 0x0DD7, Cn), (0x0DE0, 0x0DE5, Cn),
   (0x0DF0, 0x0DF1, Cn), (0x0DF5, 0x0E00, Cn), (0x0E3B, 0x0E3E, Cn), (0x0E5C, 0x0E80, Cn),
   (0x0E83, 0x0E83, Cn), (0x0E85, 0x0E85, Cn), (0x0E8B, 0x0E8B, Cn), (0x0EA4, 0x0EA4, Cn),
   (0x0EA6, 0x0EA6, Cn), (0x0EBE, 0x0EBF, Cn), (0x0EC5, 0x0EC5, Cn), (0x0EC7, 0x0EC7, Cn),
   (0x0ECE, 0x0ECF, Cn), (0x0EDA, 0x0EDB, Cn), (0x0EE0, 0x0EFF, Cn), (0x0F48, 0x0F48, Cn),
   (0x0F6D, 0x0F70, Cn), (0x0F98, 0x0F98, Cn), (0x0FBD, 0x0FBD, Cn), (0x0FCD, 0x0FCD, Cn),
   (0x0FDB, 0x0FFF, Cn), (0x10C6, 0x10C6, Cn), (0x10C8, 0x10CC, Cn), (0x10CE, 0x10CF, Cn),
   (0x1249, 0x1249, Cn), (0x124E, 0x124F, Cn), (0x1257, 0x1257, Cn), (0x1259, 0x1259, Cn),
   (0x125E, 0x125F, Cn), (0x1289, 0x1289, Cn), (0x128E, 0x128F, Cn), (0x12B1, 0x12B1, Cn),
   (0x12B6, 0x12B7, Cn), (0x12BF, 0x12BF, Cn), (0x12C1, 0x12C1, Cn), (0x12C6, 0x12C7, Cn),
   (0x12D7, 0x12D7, Cn), (0x1311, 0x1311, Cn), (0x1316, 0x1317, Cn), (0x135B, 0x135C, Cn),
   (0x137D, 0x137F, Cn), (0x139A, 0x139F, Cn), (0x13F6, 0x13F7, Cn), (0x13FE, 0x13FF, Cn),
   (0x169D, 0x169F, Cn), (0x16F9, 0x16FF, Cn), (0x1716, 0x171E, Cn), (0x1737, 0x173F, Cn),
   (0x1754, 0x175F, Cn), (0x176D, 0x176D, Cn), (0x1771, 0x1771, Cn), (0x1774, 0x177F, Cn),
   (0x17DE, 0x17DF, Cn), (0x17EA, 0x17EF, Cn), (0x17FA, 0x17FF, Cn), (0x180E, 0x180E, Cf),
   (0x181A, 0x181F, Cn), (0x1879, 0x187F, Cn), (0x18AB, 0x18AF, Cn), (0x18F6, 0x18FF, Cn),
   (0x191F, 0x191F, Cn), (0x192C, 0x192F, Cn), (0x193C, 0x193F, Cn), (0x1941, 0x1943, Cn),
   (0x196E, 0x196F, Cn), (0x1975, 0x197F, Cn), (0x19AC, 0x19AF, Cn), (0x19CA, 0x19CF, Cn),
   (0x19DB, 0x19DD, Cn), (0x1A1C, 0x1A1D, Cn), (0x1A5F, 0x1A5F, Cn), (0x1A7D, 0x1A7E, Cn),
   (0x1A8A, 0x1A8F, Cn), (0x1A9A, 0x1A9F, Cn), (0x1AAE, 0x1AAF, Cn), (0x1ACF, 0x1AFF, Cn),
   (0x1B4D, 0x1B4F, Cn), (0x1B7F, 0x1B7F, Cn), (0x1BF4, 0x1BFB, Cn), (0x1C38, 0x1C3A, Cn),
   (0x1C4A, 0x1C4C, Cn), (0x1C89, 0x1C8F, Cn), (0x1CBB, 0x1CBC, Cn), (0x1CC8, 0x1CCF, Cn),
   (0x1CFB, 0x1CFF, Cn), (0x1F16, 0x1F17, Cn), (0x1F1E, 0x1F1F, Cn), (0x1F46, 0x1F47, Cn),
   (0x1F4E, 0x1F4F, Cn), (0x1F58, 0x1F58, Cn), (0x1F5A, 0x1F5A, Cn), (0x1F5C, 0x1F5C, Cn),
   (0x1F5E, 0x1F5E, Cn), (0x1F7E, 0x1F7F, Cn), (0x1FB5, 0x1FB5, Cn), (0x1FC5, 0x1FC5, Cn),
   (0x1FD4, 0x1FD5, Cn), (0x1FDC, 0x1FDC, Cn), (0x1FF0, 0x1FF1, Cn), (0x1FF5, 0x1FF5, Cn),
   (0x1FFF, 0x1FFF, Cn), (0x200B, 0x200F, Cf), (0x202A, 0x202E, Cf), (0x2060, 0x2064, Cf),
   (0x2065, 0x2065, Cn), (0x2066, 0x206F, Cf), (0x2072, 0x2073, Cn), (0x208F, 0x208F, Cn),
   (0x209D, 0x209F, Cn), (0x20C1, 0x20CF, Cn), (0x20F1, 0x20FF, Cn), (0x218C, 0x218F, Cn),
   (0x2427, 0x243F, Cn), (0x244B, 0x245F, Cn), (0x2B74, 0x2B75, Cn), (0x2B96, 0x2B96, Cn),
   (0x2CF4, 0x2CF8, Cn), (0x2D26, 0x2D26, Cn), (0x2D28, 0x2D2C, Cn), (0x2D2E, 0x2D2F, Cn),
   (0x2D68, 0x2D6E, Cn), (0x2D71, 0x2D7E, Cn), (0x2D97, 0x2D9F, Cn), (0x2DA7, 0x2DA7, Cn),
   (0x2DAF, 0x2DAF, Cn), (0x2DB7, 0x2DB7, Cn), (0x2DBF, 0x2DBF, Cn), (0x2DC7, 0x2DC7, Cn),
   (0x2DCF, 0x2DCF, Cn), (0x2DD7, 0x2DD7, Cn), (0x2DDF, 0x2DDF, Cn), (0x2E5E, 0x2E7F, Cn),
   (0x2E9A, 0x2E9A, Cn), (0x2EF4, 0x2EFF, Cn), (0x2FD6, 0x2FEF, Cn), (0x2FFC, 0x2FFF, Cn),
   (0x3040, 0x3040, Cn), (0x3097, 0x3098, Cn), (0x3100, 0x3104, Cn), (0x3130, 0x3130, Cn),
   (0x318F, 0x318F, Cn), (0x31E4, 0x31EF, Cn), (0x321F, 0x321F, Cn), (0xA48D, 0xA48F, Cn),
   (0xA4C7, 0xA4CF, Cn), (0xA62C, 0xA63F, Cn), (0xA6F8, 0xA6FF, Cn), (0xA7CB, 0xA7CF, Cn),
   (0xA7D2, 0xA7D2, Cn), (0xA7D4, 0xA7D4, Cn), (0xA7DA, 0xA7F1, Cn), (0xA82D, 0xA82F, Cn),
   (0xA83A, 0xA83F, Cn), (0xA878, 0xA87F, Cn), (0xA8C6, 0xA8CD, Cn), (0xA8DA, 0xA8DF, Cn),
   (0xA954, 0xA95E, Cn), (0xA97D, 0xA97F, Cn), (0xA9CE, 0xA9CE, Cn), (0xA9DA, 0xA9DD, Cn),
   (0xA9FF, 0xA9FF, Cn), (0xAA37, 0xAA3F, Cn), (0xAA4E, 0xAA4F, Cn), (0xAA5A, 0xAA5B, Cn),
   (0xAAC3, 0xAADA, Cn), (0xAAF7, 0xAB00, Cn), (0xAB07, 0xAB08, Cn), (0xAB0F, 0xAB10, Cn),
   (0xAB17, 0xAB1F, Cn), (0xAB27, 0xAB27, Cn), (0xAB2F, 0xAB2F, Cn), (0xAB6C, 0xAB6F, Cn),
   (0xABEE, 0xABEF, Cn), (0xABFA, 0xABFF, Cn), (0xD7A4, 0xD7AF, Cn), (0xD7C7, 0xD7CA, Cn),
   (0xD7FC, 0xD7FF, Cn), (0xD800, 0xDFFF, Cs), (0xE000, 0xF8FF, Co), (0xFA6E, 0xFA6F, Cn),
   (0xFADA, 0xFAFF, Cn), (0xFB07, 0xFB12, Cn), (0xFB18, 0xFB1C, Cn), (0xFB37, 0xFB37, Cn),
   (0xFB3D, 0xFB3D, Cn), (0xFB3F, 0xFB3F, Cn), (0xFB42, 0xFB42, Cn), (0xFB45, 0xFB45, Cn),
   (0xFBC3, 0xFBD2, Cn), (0xFD90, 0xFD91, Cn), (0xFDC8, 0xFDCE, Cn), (0xFDD0, 0xFDEF, Cn),
   (0xFE1A, 0xFE1F, Cn), (0xFE53, 0xFE53, Cn), (0xFE67, 0xFE67, Cn), (0xFE6C, 0xFE6F, Cn),
   (0xFE75, 0xFE75, Cn), (0xFEFD, 0xFEFE, Cn), (0xFEFF, 0xFEFF, Cf), (0xFF00, 0xFF00, Cn),
   (0xFFBF, 0xFFC1, Cn), (0xFFC8, 0xFFC9, Cn), (0xFFD0, 0xFFD1, Cn), (0xFFD8, 0xFFD9, Cn),
   (0xFFDD, 0xFFDF, Cn), (0xFFE7, 0xFFE7, Cn), (0xFFEF, 0xFFF8, Cn), (0xFFF9, 0xFFFB, Cf),
   (0xFFFE, 0xFFFF, Cn), (0x1000C, 0x1000C, Cn), (0x10027, 0x10027, Cn), (0x1003B, 0x1003B, Cn),
   (0x1003E, 0x1003E, Cn), (0x1004E, 0x1004F, Cn), (0x1005E, 0x1007F, Cn), (0x100FB, 0x100FF, Cn),
   (0x10103, 0x10106, Cn), (0x10134, 0x10136, Cn), (0x1018F, 0x1018F, Cn), (0x1019D, 0x1019F, Cn),
   (0x101A1, 0x101CF, Cn), (0x101FE, 0x1027F, Cn), (0x1029D, 0x1029F, Cn), (0x102D1, 0x102DF, Cn),
   (0x102FC, 0x102FF, Cn), (0x10324, 0x1032C, Cn), (0x1034B, 0x1034F, Cn), (0x1037B, 0x1037F, Cn),
   (0x1039E, 0x1039E, Cn), (0x103C4, 0x103C7, Cn), (0x103D6, 0x103FF, Cn), (0x1049E, 0x1049F, Cn),
   (0x104AA, 0x104AF, Cn), (0x104D4, 0x104D7, Cn), (0x104FC, 0x104FF, Cn), (0x10528, 0x1052F, Cn),
   (0x10564, 0x1056E, Cn), (0x1057B, 0x1057B, Cn), (0x1058B, 0x1058B, Cn), (0x10593, 0x10593, Cn),
   (0x10596, 0x10596, Cn), (0x105A2, 0x105A2, Cn), (0x105B2, 0x105B2, Cn), (0x105BA, 0x105BA, Cn),
   (0x105BD, 0x105FF, Cn), (0x10737, 0x1073F, Cn), (0x10756, 0x1075F, Cn), (0x10768, 0x1077F, Cn),
   (0x10786, 0x10786, Cn), (0x107B1, 0x107B1, Cn), (0x107BB, 0x107FF, Cn), (0x10806, 0x10807, Cn),
   (0x10809, 0x10809, Cn), (0x10836, 0x10836, Cn), (0x10839, 0x1083B, Cn), (0x1083D, 0x1083E, Cn),
   (0x10856, 0x10856, Cn), (0x1089F, 0x108A6, Cn), (0x108B0, 0x108DF, Cn), (0x108F3, 0x108F3, Cn),
   (0x108F6, 0x108FA, Cn), (0x1091C, 0x1091E, Cn), (0x1093A, 0x1093E, Cn), (0x10940, 0x1097F, Cn),
   (0x109B8, 0x109BB, Cn), (0x109D0, 0x109D1, Cn), (0x10A04, 0x10A04, Cn), (0x10A07, 0x10A0B, Cn),
   (0x10A14, 0x10A14, Cn), (0x10A18, 0x10A18, Cn), (0x10A36, 0x10A37, Cn), (0x10A3B, 0x10A3E, Cn),
   (0x10A49, 0x10A4F, Cn), (0x10A59, 0x10A5F, Cn), (0x10AA0, 0x10ABF, Cn), (0x10AE7, 0x10AEA, Cn),
   (0x10AF7, 0x10AFF, Cn), (0x10B36, 0x10B38, Cn), (0x10B56, 0x10B57, Cn), (0x10B73, 0x10B77, Cn),
   (0x10B92, 0x10B98, Cn), (0x10B9D, 0x10BA8, Cn), (0x10BB0, 0x10BFF, Cn), (0x10C49, 0x10C7F, Cn),
   (0x10CB3, 0x10CBF, Cn), (0x10CF3, 0x10CF9, Cn), (0x10D28, 0x10D2F, Cn), (0x10D3A, 0x10E5F, Cn),
   (0x10E7F, 0x10E7F, Cn), (0x10EAA, 0x10EAA, Cn), (0x10EAE, 0x10EAF, Cn), (0x10EB2, 0x10EFF, Cn),
   (0x10F28, 0x10F2F, Cn), (0x10F5A, 0x10F6F, Cn), (0x10F8A, 0x10FAF, Cn), (0x10FCC, 0x10FDF, Cn),
   (0x10FF7, 0x10FFF, Cn), (0x1104E, 0x11051, Cn), (0x11076, 0x1107E, Cn), (0x110BD, 0x110BD, Cf),
   (0x110C3, 0x110CC, Cn), (0x110CD, 0x110CD, Cf), (0x110CE, 0x110CF, Cn), (0x110E9, 0x110EF, Cn),
   (0x110FA, 0x110FF, Cn), (0x11135, 0x11135, Cn), (0x11148, 0x1114F, Cn), (0x11177, 0x1117F, Cn),
   (0x111E0, 0x111E0, Cn), (0x111F5, 0x111FF, Cn), (0x11212, 0x11212, Cn), (0x1123F, 0x1127F, Cn),
   (0x11287, 0x11287, Cn), (0x11289, 0x11289, Cn), (0x1128E, 0x1128E, Cn), (0x1129E, 0x1129E, Cn),
   (0x112AA, 0x112AF, Cn), (0x112EB, 0x112EF, Cn), (0x112FA, 0x112FF, Cn), (0x11304, 0x11304, Cn),
   (0x1130D, 0x1130E, Cn), (0x11311, 0x11312, Cn), (0x11329, 0x11329, Cn), (0x11331, 0x11331, Cn),
   (0x11334, 0x11334, Cn), (0x1133A, 0x1133A, Cn), (0x11345, 0x11346, Cn), (0x11349, 0x1134A, Cn),
   (0x1134E, 0x1134F, Cn), (0x11351, 0x11356, Cn), (0x11358, 0x1135C, Cn), (0x11364, 0x11365, Cn),
   (0x1136D, 0x1136F, Cn), (0x11375, 0x113FF, Cn), (0x1145C, 0x1145C, Cn), (0x11462, 0x1147F, Cn),
   (0x114C8, 0x114CF, Cn), (0x114DA, 0x1157F, Cn), (0x115B6, 0x115B7, Cn), (0x115DE, 0x115FF, Cn),
   (0x11645, 0x1164F, Cn), (0x1165A, 0x1165F, Cn), (0x1166D, 0x1167F, Cn), (0x116BA, 0x116BF, Cn),
   (0x116CA, 0x116FF, Cn), (0x1171B, 0x1171C, Cn), (0x1172C, 0x1172F, Cn), (0x11747, 0x117FF, Cn),
   (0x1183C, 0x1189F, Cn), (0x118F3, 0x118FE, Cn), (0x11907, 0x11908, Cn), (0x1190A, 0x1190B, Cn),
   (0x11914, 0x11914, Cn), (0x11917, 0x11917, Cn), (0x11936, 0x11936, Cn), (0x11939, 0x1193A, Cn),
   (0x11947, 0x1194F, Cn), (0x1195A, 0x1199F, Cn), (0x119A8, 0x119A9, Cn), (0x119D8, 0x119D9, Cn),
   (0x119E5, 0x119FF, Cn), (0x11A48, 0x11A4F, Cn), (0x11AA3, 0x11AAF, Cn), (0x11AF9, 0x11BFF, Cn),
   (0x11C09, 0x11C09, Cn), (0x11C37, 0x11C37, Cn), (0x11C46, 0x11C4F, Cn), (0x11C6D, 0x11C6F, Cn),
   (0x11C90, 0x11C91, Cn), (0x11CA8, 0x11CA8, Cn), (0x11CB7, 0x11CFF, Cn), (0x11D07, 0x11D07, Cn),
   (0x11D0A, 0x11D0A, Cn), (0x11D37, 0x11D39, Cn), (0x11D3B, 0x11D3B, Cn), (0x11D3E, 0x11D3E, Cn),
   (0x11D48, 0x11D4F, Cn), (0x11D5A, 0x11D5F, Cn), (0x11D66, 0x11D66, Cn), (0x11D69, 0x11D69, Cn),
   (0x11D8F, 0x11D8F, Cn), (0x11D92, 0x11D92, Cn), (0x11D99, 0x11D9F, Cn), (0x11DAA, 0x11EDF, Cn),
   (0x11EF9, 0x11FAF, Cn), (0x11FB1, 0x11FBF, Cn), (0x11FF2, 0x11FFE, Cn), (0x1239A, 0x123FF, Cn),
   (0x1246F, 0x1246F, Cn), (0x12475, 0x1247F, Cn), (0x12544, 0x12F8F, Cn), (0x12FF3, 0x12FFF, Cn),
   (0x1342F, 0x1342F, Cn), (0x13430, 0x13438, Cf), (0x13439, 0x143FF, Cn), (0x14647, 0x167FF, Cn),
   (0x16A39, 0x16A3F, Cn), (0x16A5F, 0x16A5F, Cn), (0x16A6A, 0x16A6D, Cn), (0x16ABF, 0x16ABF, Cn),
   (0x16ACA, 0x16ACF, Cn), (0x16AEE, 0x16AEF, Cn), (0x16AF6, 0x16AFF, Cn), (0x16B46, 0x16B4F, Cn),
   (0x16B5A, 0x16B5A, Cn), (0x16B62, 0x16B62, Cn), (0x16B78, 0x16B7C, Cn), (0x16B90, 0x16E3F, Cn),
   (0x16E9B, 0x16EFF, Cn), (0x16F4B, 0x16F4E, Cn), (0x16F88, 0x16F8E, Cn), (0x16FA0, 0x16FDF, Cn),
   (0x16FE5, 0x16FEF, Cn), (0x16FF2, 0x16FFF, Cn), (0x187F8, 0x187FF, Cn), (0x18CD6, 0x18CFF, Cn),
   (0x18D09, 0x1AFEF, Cn), (0x1AFF4, 0x1AFF4, Cn), (0x1AFFC, 0x1AFFC, Cn), (0x1AFFF, 0x1AFFF, Cn),
   (0x1B123, 0x1B14F, Cn), (0x1B153, 0x1B163, Cn), (0x1B168, 0x1B16F, Cn), (0x1B2FC, 0x1BBFF, Cn),
   (0x1BC6B, 0x1BC6F, Cn), (0x1BC7D, 0x1BC7F, Cn), (0x1BC89, 0x1BC8F, Cn), (0x1BC9A, 0x1BC9B, Cn),
   (0x1BCA0, 0x1BCA3, Cf), (0x1BCA4, 0x1CEFF, Cn), (0x1CF2E, 0x1CF2F, Cn), (0x1CF47, 0x1CF4F, Cn),
   (0x1CFC4, 0x1CFFF, Cn), (0x1D0F6, 0x1D0FF, Cn), (0x1D127, 0x1D128, Cn), (0x1D173, 0x1D17A, Cf),
   (0x1D1EB, 0x1D1FF, Cn), (0x1D246, 0x1D2DF, Cn), (0x1D2F4, 0x1D2FF, Cn), (0x1D357, 0x1D35F, Cn),
   (0x1D379, 0x1D3FF, Cn), (0x1D455, 0x1D455, Cn), (0x1D49D, 0x1D49D, Cn), (0x1D4A0, 0x1D4A1, Cn),
   (0x1D4A3, 0x1D4A4, Cn), (0x1D4A7, 0x1D4A8, Cn), (0x1D4AD, 0x1D4AD, Cn), (0x1D4BA, 0x1D4BA, Cn),
   (0x1D4BC, 0x1D4BC, Cn), (0x1D4C4, 0x1D4C4, Cn), (0x1D506, 0x1D506, Cn), (0x1D50B, 0x1D50C, Cn),
   (0x1D515, 0x1D515, Cn), (0x1D51D, 0x1D51D, Cn), (0x1D53A, 0x1D53A, Cn), (0x1D53F, 0x1D53F, Cn),
   (0x1D545, 0x1D545, Cn), (0x1D547, 0x1D549, Cn), (0x1D551, 0x1D551, Cn), (0x1D6A6, 0x1D6A7, Cn),
   (0x1D7CC, 0x1D7CD, Cn), (0x1DA8C, 0x1DA9A, Cn), (0x1DAA0, 0x1DAA0, Cn), (0x1DAB0, 0x1DEFF, Cn),
   (0x1DF1F, 0x1DFFF, Cn), (0x1E007, 0x1E007, Cn), (0x1E019, 0x1E01A, Cn), (0x1E022, 0x1E022, Cn),
   (0x1E025, 0x1E025, Cn), (0x1E02B, 0x1E0FF, Cn), (0x1E12D, 0x1E12F, Cn), (0x1E13E, 0x1E13F, Cn),
   (0x1E14A, 0x1E14D, Cn), (0x1E150, 0x1E28F, Cn), (0x1E2AF, 0x1E2BF, Cn), (0x1E2FA, 0x1E2FE, Cn),
   (0x1E300, 0x1E7DF, Cn), (0x1E7E7, 0x1E7E7, Cn), (0x1E7EC, 0x1E7EC, Cn), (0x1E7EF, 0x1E7EF, Cn),
   (0x1E7FF, 0x1E7FF, Cn), (0x1E8C5, 0x1E8C6, Cn), (0x1E8D7, 0x1E8FF, Cn), (0x1E94C, 0x1E94F, Cn),
   (0x1E95A, 0x1E95D, Cn), (0x1E960, 0x1EC70, Cn), (0x1ECB5, 0x1ED00, Cn), (0x1ED3E, 0x1EDFF, Cn),
   (0x1EE04, 0x1EE04, Cn), (0x1EE20, 0x1EE20, Cn), (0x1EE23, 0x1EE23, Cn), (0x1EE25, 0x1EE26, Cn),
   (0x1EE28, 0x1EE28, Cn), (0x1EE33, 0x1EE33, Cn), (0x1EE38, 0x1EE38, Cn), (0x1EE3A, 0x1EE3A, Cn),
   (0x1EE3C, 0x1EE41, Cn), (0x1EE43, 0x1EE46, Cn), (0x1EE48, 0x1EE48, Cn), (0x1EE4A, 0x1EE4A, Cn),
   (0x1EE4C, 0x1EE4C, Cn), (0x1EE50, 0x1EE50, Cn), (0x1EE53, 0x1EE53, Cn), (0x1EE55, 0x1EE56, Cn),
   (0x1EE58, 0x1EE58, Cn), (0x1EE5A, 0x1EE5A, Cn), (0x1EE5C, 0x1EE5C, Cn), (0x1EE5E, 0x1EE5E, Cn),
   (0x1EE60, 0x1EE60, Cn), (0x1EE63, 0x1EE63, Cn), (0x1EE65, 0x1EE66, Cn), (0x1EE6B, 0x1EE6B, Cn),
   (0x1EE73, 0x1EE73, Cn), (0x1EE78, 0x1EE78, Cn), (0x1EE7D, 0x1EE7D, Cn), (0x1EE7F, 0x1EE7F, Cn),
   (0x1EE8A, 0x1EE8A, Cn), (0x1EE9C, 0x1EEA0, Cn), (0x1EEA4, 0x1EEA4, Cn), (0x1EEAA, 0x1EEAA, Cn),
   (0x1EEBC, 0x1EEEF, Cn), (0x1EEF2, 0x1EFFF, Cn), (0x1F02C, 0x1F02F, Cn), (0x1F094, 0x1F09F, Cn),
   (0x1F0AF, 0x1F0B0, Cn), (0x1F0C0, 0x1F0C0, Cn), (0x1F0D0, 0x1F0D0, Cn), (0x1F0F6, 0x1F0FF, Cn),
   (0x1F1AE, 0x1F1E5, Cn), (0x1F203, 0x1F20F, Cn), (0x1F23C, 0x1F23F, Cn), (0x1F249, 0x1F24F, Cn),
   (0x1F252, 0x1F25F, Cn), (0x1F266, 0x1F2FF, Cn), (0x1F6D8, 0x1F6DC, Cn), (0x1F6ED, 0x1F6EF, Cn),
   (0x1F6FD, 0x1F6FF, Cn), (0x1F774, 0x1F77F, Cn), (0x1F7D9, 0x1F7DF, Cn), (0x1F7EC, 0x1F7EF, Cn),
   (0x1F7F1, 0x1F7FF, Cn), (0x1F80C, 0x1F80F, Cn), (0x1F848, 0x1F84F, Cn), (0x1F85A, 0x1F85F, Cn),
   (0x1F888, 0x1F88F, Cn), (0x1F8AE, 0x1F8AF, Cn), (0x1F8B2, 0x1F8FF, Cn), (0x1FA54, 0x1FA5F, Cn),
   (0x1FA6E, 0x1FA6F, Cn), (0x1FA75, 0x1FA77, Cn), (0x1FA7D, 0x1FA7F, Cn), (0x1FA87, 0x1FA8F, Cn),
   (0x1FAAD, 0x1FAAF, Cn), (0x1FABB, 0x1FABF, Cn), (0x1FAC6, 0x1FACF, Cn), (0x1FADA, 0x1FADF, Cn),
   (0x1FAE8, 0x1FAEF, Cn), (0x1FAF7, 0x1FAFF, Cn), (0x1FB93, 0x1FB93, Cn), (0x1FBCB, 0x1FBEF, Cn),
   (0x1FBFA, 0x1FFFF, Cn), (0x2A6E0, 0x2A6FF, Cn), (0x2B739, 0x2B73F, Cn), (0x2B81E, 0x2B81F, Cn),
   (0x2CEA2, 0x2CEAF, Cn), (0x2EBE1, 0x2F7FF, Cn), (0x2FA1E, 0x2FFFF, Cn), (0x3134B, 0xE0000, Cn),
   (0xE0001, 0xE0001, Cf), (0xE0002, 0xE001F, Cn), (0xE0020, 0xE007F, Cf), (0xE0080, 0xE00FF, Cn),
   (0xE01F0, 0xEFFFF, Cn), (0xF0000, 0xFFFFD, Co), (0xFFFFE, 0xFFFFF, Cn), (0x100000, 0x10FFFD, Co),
   (0x10FFFE, 0x10FFFF, Cn)
  ]"

fun range_lookup :: "nat \<Rightarrow> (nat \<times> nat \<times> gcat) list \<Rightarrow> gcat" where
  "range_lookup cp [] = NotC"
| "range_lookup cp ((lo, hi, c) # rs) =
     (if cp < lo then NotC else if cp \<le> hi then c else range_lookup cp rs)"

definition unicode14 :: ucd where
  "unicode14 cp = range_lookup cp C_ranges"

section \<open>Names and categories of well-known code points\<close>

definition NAMED :: "nat \<Rightarrow> (string \<times> string) option" where
  "NAMED = map_of [
    (0x00, (''NULL'', ''Cc'')),
    (0x09, (''TAB'', ''Cc'')),
    (0x0a, (''LINE FEED'', ''Cc'')),
    (0x0d, (''CARRIAGE RETURN'', ''Cc'')),
    (0x200b, (''ZERO WIDTH SPACE'', ''Cf'')),
    (0x200c, (''ZERO WIDTH NON-JOINER'', ''Cf'')),
    (0x200d, (''ZERO WIDTH JOINER'', ''Cf'')),
    (0x00a0, (''NO-BREAK SPACE'', ''Zs'')),
    (0x2028, (''LINE SEPARATOR'', ''Zl'')),
    (0x2029, (''PARAGRAPH SEPARATOR'', ''Zp'')),
    (0x00ad, (''SOFT HYPHEN'', ''Cf'')),
    (0x061c, (''ARABIC LETTER MARK'', ''Cf'')),
    (0x200e, (''LEFT-TO-RIGHT MARK'', ''Cf'')),
    (0x200f, (''RIGHT-TO-LEFT MARK'', ''Cf'')),
    (0x202a, (''LEFT-TO-RIGHT EMBEDDING'', ''Cf'')),
    (0x202b, (''RIGHT-TO-LEFT EMBEDDING'', ''Cf'')),
    (0x202c, (''POP DIRECTIONAL FORMATTING'', ''Cf'')),
    (0x202d, (''LEFT-TO-RIGHT OVERRIDE'', ''Cf'')),
    (0x202e, (''RIGHT-TO-LEFT OVERRIDE'', ''Cf'')),
    (0x2066, (''LEFT-TO-RIGHT ISOLATE'', ''Cf'')),
    (0x2067, (''RIGHT-TO-LEFT ISOLATE'', ''Cf'')),
    (0x2068, (''FIRST STRONG ISOLATE'', ''Cf'')),
    (0x2069, (''POP DIRECTIONAL ISOLATE'', ''Cf''))]"

text \<open>\<open>Number.prototype.toString(16)\<close>, \<open>toUpperCase\<close> and \<open>padStart\<close>, as \<open>hex\<close> uses them.\<close>

fun toString16 :: "nat \<Rightarrow> string" where
  "toString16 n =
     (if n < 16 then [''0123456789abcdef'' ! n]
      else toString16 (n div 16) @ [''0123456789abcdef'' ! (n mod 16)])"

declare toString16.simps [simp del]

definition toUpperCase :: "string \<Rightarrow> string" where
  "toUpperCase s =
     map (\<lambda>c. if (97::nat) \<le> of_char c \<and> of_char c \<le> (122::nat)
              then char_of (of_char c - (32::nat)) else c) s"

definition padStart :: "string \<Rightarrow> nat \<Rightarrow> char \<Rightarrow> string" where
  "padStart s n c = replicate (n - length s) c @ s"

definition hex :: "nat \<Rightarrow> string" where
  "hex codePoint = ''U+'' @ padStart (toUpperCase (toString16 codePoint)) 4 (CHR ''0'')"

text \<open>\<open>named?.name ?? hex(cp)\<close> and \<open>named?.category ?? "C*"\<close>.\<close>

definition nameOf :: "nat \<Rightarrow> string" where
  "nameOf cp = (case NAMED cp of Some named \<Rightarrow> fst named | None \<Rightarrow> hex cp)"

definition categoryOf :: "nat \<Rightarrow> string" where
  "categoryOf cp = (case NAMED cp of Some named \<Rightarrow> snd named | None \<Rightarrow> ''C*'')"

definition classifyToken :: "nat \<Rightarrow> string \<Rightarrow> string" where
  "classifyToken codePoint category =
     (if codePoint = 0x200b then ''token-zwsp''
      else if codePoint = 0x00a0 then ''token-nbsp''
      else if codePoint = 0x00ad then ''token-soft''
      else if codePoint = 0x200e \<or> codePoint = 0x200f \<or> codePoint = 0x202a
              \<or> codePoint = 0x202b \<or> codePoint = 0x202c \<or> codePoint = 0x202d
              \<or> codePoint = 0x202e \<or> codePoint = 0x2066 \<or> codePoint = 0x2067
              \<or> codePoint = 0x2068 \<or> codePoint = 0x2069 then ''token-bidi''
      else if prefix ''Cc'' category then ''token-cc''
      else if prefix ''Cf'' category then ''token-cf''
      else if prefix ''Cs'' category then ''token-cs''
      else if prefix ''Co'' category then ''token-co''
      else if prefix ''Cn'' category then ''token-cn''
      else ''token-cf'')"

section \<open>Detection\<close>

record NonPrintableMatch =
  index :: nat
  char :: jsstring
  codePoint :: nat
  name :: string
  category :: string

record PositionedMatch = NonPrintableMatch +
  line :: nat
  column :: nat

text \<open>
  \<open>input.matchAll(NON_PRINTABLE_REGEX)\<close>: the expression has the \<open>g\<close> and \<open>u\<close> flags,
  so the engine tries the character class at a position, reads a whole code point
  there, yields the position and the matched text on success, and moves on by that code
  point either way. \<open>rest\<close> is the text from position \<open>i\<close> on.
\<close>

function matchAll :: "ucd \<Rightarrow> jsstring \<Rightarrow> nat \<Rightarrow> (nat \<times> jsstring) list" where
  "matchAll gc rest i =
     (case codePointAt rest 0 of
        None \<Rightarrow> []
      | Some cp \<Rightarrow>
          (let n = (if cp \<le> 0xFFFF then 1 else 2) in
           (if NON_PRINTABLE_REGEX gc cp then [(i, take n rest)] else [])
           @ matchAll gc (drop n rest) (i + n)))"
  by pat_completeness auto
termination
  by (relation "measure (\<lambda>(gc, rest, i). length rest)")
     (auto simp: codePointAt_def split: if_splits)

declare matchAll.simps [simp del]

definition findNonPrintable :: "ucd \<Rightarrow> jsstring \<Rightarrow> NonPrintableMatch list" where
  "findNonPrintable gc input =
     map (\<lambda>(m_index, m0).
            let ch = m0;
                cp = the (codePointAt ch 0)
            in \<lparr> index = m_index, char = ch, codePoint = cp,
                 name = nameOf cp, category = categoryOf cp \<rparr>)
         (matchAll gc input 0)"

text \<open>
  The loops of the library run \<open>i\<close> forward over \<open>input\<close> and read it only at \<open>i\<close> and
  beyond: the loop functions carry \<open>i\<close> together with \<open>rest\<close>, the text from \<open>i\<close> on, so
  that \<open>input.codePointAt(i + k)\<close> is \<open>codePointAt rest k\<close> and \<open>i < input.length\<close>
  fails exactly when \<open>codePointAt rest 0\<close> is \<open>None\<close>. The \<open>g\<close> flag makes \<open>test\<close>
  start at \<open>lastIndex\<close>; a failed test resets it and every call site resets it after a
  successful one, so each test of the one-code-point string \<open>ch\<close> starts at 0 and
  answers whether \<open>cp\<close> is in the class. The locals \<open>line\<close> and \<open>column\<close> are written
  \<open>ln\<close> and \<open>col\<close>, apart from the record fields of the same names.
\<close>

function findNonPrintableWithPositions_loop ::
  "ucd \<Rightarrow> jsstring \<Rightarrow> nat \<Rightarrow> nat \<Rightarrow> nat \<Rightarrow> PositionedMatch list \<Rightarrow> PositionedMatch list" where
  "findNonPrintableWithPositions_loop gc rest i ln col results =
     (case codePointAt rest 0 of
        None \<Rightarrow> results
      | Some cp \<Rightarrow>
          (let ch = fromCodePoint cp;
               results' =
                 (if NON_PRINTABLE_REGEX gc cp
                  then results @ [\<lparr> index = i, char = ch, codePoint = cp,
                                     name = nameOf cp, category = categoryOf cp,
                                     line = ln, column = col \<rparr>]
                  else results)
           in if cp = 0x0d then
                (if codePointAt rest (length ch) = Some 0x0a
                 then findNonPrintableWithPositions_loop gc
                        (drop (length ch + length (fromCodePoint 0x0a)) rest)
                        (i + length ch + length (fromCodePoint 0x0a)) (ln + 1) 1 results'
                 else findNonPrintableWithPositions_loop gc
                        (drop (length ch) rest) (i + length ch) (ln + 1) 1 results')
              else if cp = 0x0a \<or> cp = 0x2028 \<or> cp = 0x2029 then
                findNonPrintableWithPositions_loop gc
                  (drop (length ch) rest) (i + length ch) (ln + 1) 1 results'
              else
                findNonPrintableWithPositions_loop gc
                  (drop (length ch) rest) (i + length ch) ln (col + 1) results'))"
  by pat_completeness auto
termination
  by (relation "measure (\<lambda>(gc, rest, i, ln, col, results). length rest)")
     (auto simp: codePointAt_def fromCodePoint_def split: if_splits)

declare findNonPrintableWithPositions_loop.simps [simp del]

definition findNonPrintableWithPositions :: "ucd \<Rightarrow> jsstring \<Rightarrow> PositionedMatch list" where
  "findNonPrintableWithPositions gc input = findNonPrintableWithPositions_loop gc input 0 1 1 []"

section \<open>Frequency table\<close>

text \<open>
  \<open>freq\<close> is a JavaScript \<open>Map\<close>, which keeps its keys in insertion order: an association
  list, where \<open>set\<close> on a present key replaces the value in place and on a new key
  appends (\<open>AList.update\<close>). The value objects \<open>{count, name, category}\<close> are the record
  \<open>Tally\<close>.
\<close>

record Tally =
  tally_count :: nat
  tally_name :: string
  tally_category :: string

record FrequencyEntry =
  entry_codePoint :: nat
  entry_name :: string
  entry_category :: string
  count :: nat

definition summarize_step :: "(nat \<times> Tally) list \<Rightarrow> nat \<times> jsstring \<Rightarrow> (nat \<times> Tally) list" where
  "summarize_step freq m =
     (let cp = the (codePointAt (snd m) 0);
          key = cp;
          current = (case map_of freq key of
                       Some v \<Rightarrow> v
                     | None \<Rightarrow> \<lparr> tally_count = 0, tally_name = nameOf cp,
                                  tally_category = categoryOf cp \<rparr>);
          current' = current \<lparr> tally_count := tally_count current + 1 \<rparr>
      in AList.update key current' freq)"

definition summarize_freq :: "ucd \<Rightarrow> jsstring \<Rightarrow> (nat \<times> Tally) list" where
  "summarize_freq gc input = foldl summarize_step [] (matchAll gc input 0)"

text \<open>The comparator \<open>(a, b) => b.count - a.count || a.codePoint - b.codePoint\<close>.\<close>

definition compareEntries :: "FrequencyEntry \<Rightarrow> FrequencyEntry \<Rightarrow> int" where
  "compareEntries a b =
     (if int (count b) - int (count a) \<noteq> 0 then int (count b) - int (count a)
      else int (entry_codePoint a) - int (entry_codePoint b))"

text \<open>
  \<open>Array.prototype.sort\<close> is the engine's; ECMAScript requires it to be stable and to
  order the array by the comparator. It is modelled by a stable insertion sort.
\<close>

fun insert_sorted :: "('a \<Rightarrow> 'a \<Rightarrow> int) \<Rightarrow> 'a \<Rightarrow> 'a list \<Rightarrow> 'a list" where
  "insert_sorted cmp x [] = [x]"
| "insert_sorted cmp x (y # ys) =
     (if cmp x y \<le> 0 then x # y # ys else y # insert_sorted cmp x ys)"

fun array_sort :: "('a \<Rightarrow> 'a \<Rightarrow> int) \<Rightarrow> 'a list \<Rightarrow> 'a list" where
  "array_sort cmp [] = []"
| "array_sort cmp (x # xs) = insert_sorted cmp x (array_sort cmp xs)"

definition summarizeNonPrintable :: "ucd \<Rightarrow> jsstring \<Rightarrow> FrequencyEntry list" where
  "summarizeNonPrintable gc input =
     array_sort compareEntries
       (map (\<lambda>(cp, v). \<lparr> entry_codePoint = cp, entry_name = tally_name v,
                          entry_category = tally_category v, count = tally_count v \<rparr>)
            (summarize_freq gc input))"

section \<open>Annotated rendering\<close>

definition replace_all :: "16 word \<Rightarrow> jsstring \<Rightarrow> jsstring \<Rightarrow> jsstring" where
  "replace_all c r s = concat (map (\<lambda>u. if u = c then r else [u]) s)"

definition escape :: "jsstring \<Rightarrow> jsstring" where
  "escape s =
     replace_all 0x3E (lit ''&gt;'') (replace_all 0x3C (lit ''&lt;'') (replace_all 0x26 (lit ''&amp;'') s))"

text \<open>The decimal numeral that a template literal prints for a number.\<close>

fun toString10 :: "nat \<Rightarrow> string" where
  "toString10 n =
     (if n < 10 then [''0123456789'' ! n]
      else toString10 (n div 10) @ [''0123456789'' ! (n mod 10)])"

declare toString10.simps [simp del]

definition token_title :: "nat \<Rightarrow> nat \<Rightarrow> nat \<Rightarrow> jsstring" where
  "token_title cp ln col =
     lit (nameOf cp) @ lit '' ('' @ lit (hex cp) @ lit '') '' @ [0x2014] @ lit '' Category ''
     @ lit (categoryOf cp) @ lit '' '' @ [0x2014] @ lit '' at ''
     @ lit (toString10 ln) @ lit '':'' @ lit (toString10 col)"

definition token_span :: "nat \<Rightarrow> nat \<Rightarrow> nat \<Rightarrow> jsstring" where
  \<open>token_span cp ln col =
     lit ''<span class="token '' @ lit (classifyToken cp (categoryOf cp)) @ lit ''" title="''
     @ escape (token_title cp ln col) @ lit ''">&#9676;</span>''\<close>

text \<open>
  The loop of \<open>visualizeWithTokens\<close> over its four locals \<open>result\<close>, \<open>count\<close>, \<open>line\<close>,
  \<open>column\<close> (\<open>count\<close> is written \<open>cnt\<close>); it returns all four, and the function
  returns the pair \<open>(html, count)\<close>.
\<close>

function visualizeWithTokens_loop ::
  "ucd \<Rightarrow> jsstring \<Rightarrow> jsstring \<Rightarrow> nat \<Rightarrow> nat \<Rightarrow> nat \<Rightarrow> jsstring \<times> nat \<times> nat \<times> nat" where
  "visualizeWithTokens_loop gc rest result cnt ln col =
     (case codePointAt rest 0 of
        None \<Rightarrow> (result, cnt, ln, col)
      | Some cp \<Rightarrow>
          (let ch = fromCodePoint cp;
               isHidden = NON_PRINTABLE_REGEX gc cp;
               cnt' = (if isHidden then cnt + 1 else cnt);
               result' = (if isHidden then result @ token_span cp ln col
                          else result @ escape ch)
           in if cp = 0x0d then
                (if codePointAt rest (length ch) = Some 0x0a
                 then visualizeWithTokens_loop gc
                        (drop (length ch + length (fromCodePoint 0x0a)) rest)
                        result' cnt' (ln + 1) 1
                 else visualizeWithTokens_loop gc (drop (length ch) rest) result' cnt' (ln + 1) 1)
              else if cp = 0x0a \<or> cp = 0x2028 \<or> cp = 0x2029 then
                visualizeWithTokens_loop gc (drop (length ch) rest) result' cnt' (ln + 1) 1
              else
                visualizeWithTokens_loop gc (drop (length ch) rest) result' cnt' ln (col + 1)))"
  by pat_completeness auto
termination
  by (relation "measure (\<lambda>(gc, rest, result, cnt, ln, col). length rest)")
     (auto simp: codePointAt_def fromCodePoint_def split: if_splits)

declare visualizeWithTokens_loop.simps [simp del]

definition visualizeWithTokens :: "ucd \<Rightarrow> jsstring \<Rightarrow> jsstring \<times> nat" where
  "visualizeWithTokens gc input =
     (case visualizeWithTokens_loop gc input [] 0 1 1 of
        (result, cnt, ln, col) \<Rightarrow> (result, cnt))"

section \<open>Cleaning\<close>

record CleanOptions =
  removeCc :: bool
  removeCf :: bool
  removeCs :: bool
  removeCo :: bool
  removeCn :: bool
  preserveTab :: bool
  preserveLF :: bool
  preserveCR :: bool
  removeZWSP :: bool
  nbspToSpace :: bool
  normalizeDashes :: bool
  normalizeQuotes :: bool

definition defaultCleanOptions :: CleanOptions where
  "defaultCleanOptions =
     \<lparr> removeCc = True, removeCf = True, removeCs = True, removeCo = True, removeCn = True,
       preserveTab = True, preserveLF = True, preserveCR = False,
       removeZWSP = True, nbspToSpace = True, normalizeDashes = True, normalizeQuotes = True \<rparr>"

definition DASH_MAP :: "nat \<Rightarrow> string option" where
  "DASH_MAP = map_of [
     (0x2010, ''-''), (0x2011, ''-''), (0x2012, ''-''),
     (0x2013, ''-''), (0x2014, ''-''), (0x2212, ''-'')]"

definition QUOTE_MAP :: "nat \<Rightarrow> string option" where
  \<open>QUOTE_MAP = map_of [
     (0x2018, [CHR 0x27]), (0x2019, [CHR 0x27]), (0x201a, [CHR 0x27]),
     (0x201b, [CHR 0x27]), (0x2032, [CHR 0x27]),
     (0x201c, ''"''), (0x201d, ''"''), (0x201e, ''"''), (0x201f, ''"''), (0x2033, ''"'')]\<close>

text \<open>
  One turn of the loop of \<open>cleanText\<close>: the text appended to \<open>out\<close> for the code point
  \<open>cp\<close>, whose own text is \<open>ch\<close>. A map entry is truthy when it is present: all the
  replacement strings are non-empty.
\<close>

definition clean_emit :: "ucd \<Rightarrow> CleanOptions \<Rightarrow> nat \<Rightarrow> jsstring \<Rightarrow> jsstring" where
  "clean_emit gc options cp ch =
     (if nbspToSpace options \<and> cp = 0x00a0 then lit '' ''
      else if normalizeDashes options \<and> DASH_MAP cp \<noteq> None then lit (the (DASH_MAP cp))
      else if normalizeQuotes options \<and> QUOTE_MAP cp \<noteq> None then lit (the (QUOTE_MAP cp))
      else if removeZWSP options \<and> cp = 0x200b then []
      else if NON_PRINTABLE_REGEX gc cp then
        (if cp = 0x09 \<and> preserveTab options then ch
         else if cp = 0x0a \<and> preserveLF options then ch
         else if cp = 0x0d \<and> preserveCR options then ch
         else
           (let cat = categoryOf cp;
                shouldRemove =
                  ((prefix ''Cc'' cat \<and> removeCc options) \<or>
                   (prefix ''Cf'' cat \<and> removeCf options) \<or>
                   (prefix ''Cs'' cat \<and> removeCs options) \<or>
                   (prefix ''Co'' cat \<and> removeCo options) \<or>
                   (prefix ''Cn'' cat \<and> removeCn options))
            in if shouldRemove then [] else ch))
      else ch)"

function cleanText_loop :: "ucd \<Rightarrow> CleanOptions \<Rightarrow> jsstring \<Rightarrow> jsstring \<Rightarrow> jsstring" where
  "cleanText_loop gc options rest out =
     (case codePointAt rest 0 of
        None \<Rightarrow> out
      | Some cp \<Rightarrow>
          (let ch = fromCodePoint cp
           in cleanText_loop gc options (drop (length ch) rest)
                (out @ clean_emit gc options cp ch)))"
  by pat_completeness auto
termination
  by (relation "measure (\<lambda>(gc, options, rest, out). length rest)")
     (auto simp: codePointAt_def fromCodePoint_def split: if_splits)

declare cleanText_loop.simps [simp del]

definition cleanText :: "ucd \<Rightarrow> jsstring \<Rightarrow> CleanOptions \<Rightarrow> jsstring" where
  "cleanText gc input options = cleanText_loop gc options input []"

section \<open>Notions of the specification\<close>

text \<open>
  The code points of a text, in order, as iteration by code point yields them: a
  surrogate pair is one code point, every other code unit is one. The number of code
  points of a text is the length of this list.
\<close>

fun codePoints :: "jsstring \<Rightarrow> nat list" where
  "codePoints [] = []"
| "codePoints [u] = [unat u]"
| "codePoints (u # v # r) =
     (if isLeadingSurrogate u \<and> isTrailingSurrogate v
      then UTF16SurrogatePairToCodePoint u v # codePoints r
      else unat u # codePoints (v # r))"

definition codePointCount :: "jsstring \<Rightarrow> nat" where
  "codePointCount s = length (codePoints s)"

text \<open>
  The forward pass of section 4.2 of the specification, written from its words: from
  an offset, a line and a column it lists the offset of every code point it visits with
  the line and column it has there. CARRIAGE RETURN immediately followed by LINE FEED
  is one line break and the pass goes on after both; CARRIAGE RETURN alone, LINE FEED
  alone, LINE SEPARATOR and PARAGRAPH SEPARATOR are line breaks; every other code point
  is one more column.
\<close>

fun spec_positions :: "jsstring \<Rightarrow> nat \<Rightarrow> nat \<Rightarrow> nat \<Rightarrow> (nat \<times> nat \<times> nat) list" where
  "spec_positions [] i l c = []"
| "spec_positions [u] i l c = [(i, l, c)]"
| "spec_positions (u # v # r) i l c =
     (i, l, c) #
     (if u = 0x0D \<and> v = 0x0A then spec_positions r (i + 2) (l + 1) 1
      else if u = 0x0D \<or> u = 0x0A \<or> u = 0x2028 \<or> u = 0x2029
      then spec_positions (v # r) (i + 1) (l + 1) 1
      else if isLeadingSurrogate u \<and> isTrailingSurrogate v
      then spec_positions r (i + 2) l (c + 1)
      else spec_positions (v # r) (i + 1) l (c + 1))"

declare spec_positions.simps [simp del]

definition spec_position :: "jsstring \<Rightarrow> nat \<Rightarrow> (nat \<times> nat) option" where
  "spec_position s k = map_of (spec_positions s 0 1 1) k"

text \<open>A text has a CARRIAGE RETURN immediately followed by a LINE FEED.\<close>

fun has_CRLF :: "jsstring \<Rightarrow> bool" where
  "has_CRLF (u # v # r) = ((u = 0x0D \<and> v = 0x0A) \<or> has_CRLF (v # r))"
| "has_CRLF [u] = False"
| "has_CRLF [] = False"

text \<open>Printable ASCII: the code units U+0020 to U+007E.\<close>

definition printable_ascii :: "jsstring \<Rightarrow> bool" where
  "printable_ascii s = list_all (\<lambda>u. 0x20 \<le> unat u \<and> unat u \<le> 0x7E) s"

section \<open>Reading a text by code point\<close>

lemma codePointAt_Nil [simp]: "codePointAt [] k = None"
  by (simp add: codePointAt_def)

lemma codePointAt_pair:
  "isLeadingSurrogate u \<Longrightarrow> isTrailingSurrogate v \<Longrightarrow>
   codePointAt (u # v # r) 0 = Some (UTF16SurrogatePairToCodePoint u v)"
  by (simp add: codePointAt_def)

lemma codePointAt_unit:
  "\<not> (isLeadingSurrogate u \<and> us \<noteq> [] \<and> isTrailingSurrogate (hd us)) \<Longrightarrow>
   codePointAt (u # us) 0 = Some (unat u)"
  by (cases us) (auto simp: codePointAt_def)

lemma codePointAt_Suc: "codePointAt (u # us) (Suc k) = codePointAt us k"
  by (simp add: codePointAt_def)

lemma unat_lt_65536: "unat (u :: 16 word) < 65536"
  using unsigned_less [of u] by simp

lemma fromCodePoint_unat [simp]: "fromCodePoint (unat (u :: 16 word)) = [u]"
  using unat_lt_65536 [of u] by (simp add: fromCodePoint_def)

lemma pair_parts:
  assumes "isLeadingSurrogate u" "isTrailingSurrogate v"
  obtains a b where "unat u = a + 0xD800" "unat v = b + 0xDC00" "a < 0x400" "b < 0x400"
    "UTF16SurrogatePairToCodePoint u v = a * 0x400 + b + 0x10000"
proof -
  have 1: "unat u = (unat u - 0xD800) + 0xD800" "unat u - 0xD800 < 0x400"
    using assms(1) unfolding isLeadingSurrogate_def by linarith+
  have 2: "unat v = (unat v - 0xDC00) + 0xDC00" "unat v - 0xDC00 < 0x400"
    using assms(2) unfolding isTrailingSurrogate_def by linarith+
  show thesis
    using that [of "unat u - 0xD800" "unat v - 0xDC00"] 1 2
    by (simp add: UTF16SurrogatePairToCodePoint_def)
qed

lemma pair_range:
  assumes "isLeadingSurrogate u" "isTrailingSurrogate v"
  shows "0xFFFF < UTF16SurrogatePairToCodePoint u v"
    and "UTF16SurrogatePairToCodePoint u v \<le> 0x10FFFF"
proof -
  obtain a b where ab: "a < (0x400::nat)" "b < (0x400::nat)"
    "UTF16SurrogatePairToCodePoint u v = a * 0x400 + b + 0x10000"
    using pair_parts [OF assms] by metis
  show "0xFFFF < UTF16SurrogatePairToCodePoint u v" using ab by simp
  have "a * 0x400 \<le> 0x3FF * 0x400" using ab(1) by simp
  then show "UTF16SurrogatePairToCodePoint u v \<le> 0x10FFFF" using ab by simp
qed

lemma fromCodePoint_pair:
  assumes "isLeadingSurrogate u" "isTrailingSurrogate v"
  shows "fromCodePoint (UTF16SurrogatePairToCodePoint u v) = [u, v]"
proof -
  obtain a b where a: "unat u = a + 0xD800" and b: "unat v = b + 0xDC00"
    and blt: "b < 0x400"
    and cp: "UTF16SurrogatePairToCodePoint u v = a * 0x400 + b + 0x10000"
    using pair_parts [OF assms] by metis
  have d: "(a * 0x400 + b) div 0x400 = a" and m: "(a * 0x400 + b) mod 0x400 = b"
    using blt by simp_all
  have "(of_nat (unat u) :: 16 word) = u" "(of_nat (unat v) :: 16 word) = v"
    by simp_all
  then have "(of_nat (a + 0xD800) :: 16 word) = u" "(of_nat (b + 0xDC00) :: 16 word) = v"
    unfolding a b by simp_all
  moreover note blt
  ultimately show ?thesis
    using d m by (simp add: fromCodePoint_def cp)
qed

lemma codePointAt_le: "codePointAt s k = Some cp \<Longrightarrow> cp \<le> 0x10FFFF"
  using unat_lt_65536 [of "s ! k"]
  by (auto simp: codePointAt_def pair_range split: if_splits)

lemma scan_induct [case_names Nil Pair CRLF Unit]:
  assumes "P []"
    and "\<And>u v r. isLeadingSurrogate u \<Longrightarrow> isTrailingSurrogate v \<Longrightarrow> P r \<Longrightarrow> P (u # v # r)"
    and "\<And>r. P r \<Longrightarrow> P (0x0D # 0x0A # r)"
    and "\<And>u us. \<not> (isLeadingSurrogate u \<and> us \<noteq> [] \<and> isTrailingSurrogate (hd us)) \<Longrightarrow>
           \<not> (u = 0x0D \<and> us \<noteq> [] \<and> hd us = 0x0A) \<Longrightarrow> P us \<Longrightarrow> P (u # us)"
  shows "P s"
proof (induction "length s" arbitrary: s rule: less_induct)
  case less
  show ?case
  proof (cases s)
    case Nil
    then show ?thesis using assms(1) by simp
  next
    case (Cons u us)
    show ?thesis
    proof (cases "isLeadingSurrogate u \<and> us \<noteq> [] \<and> isTrailingSurrogate (hd us)")
      case True
      then obtain v r where "us = v # r" by (cases us) auto
      with True Cons less show ?thesis using assms(2) [of u v r] by simp
    next
      case np: False
      show ?thesis
      proof (cases "u = 0x0D \<and> us \<noteq> [] \<and> hd us = 0x0A")
        case True
        then obtain r where "us = 0x0A # r" by (cases us) auto
        with True Cons less show ?thesis using assms(3) [of r] by simp
      next
        case False
        with np Cons less show ?thesis using assms(4) [of u us] by simp
      qed
    qed
  qed
qed

lemma not_surrogate_CR_LF: "\<not> isLeadingSurrogate 0x0A" "\<not> isLeadingSurrogate 0x0D" "\<not> isTrailingSurrogate 0x0A" "\<not> isTrailingSurrogate 0x0D"
  by (simp_all add: isLeadingSurrogate_def isTrailingSurrogate_def)
lemma codePointAt_0_eq_LF: "codePointAt us 0 = Some 0x0a \<longleftrightarrow> (us \<noteq> [] \<and> hd us = 0x0A)"
proof (cases us)
  case Nil then show ?thesis by simp
next
  case (Cons v r)
  show ?thesis
  proof (cases "isLeadingSurrogate v \<and> r \<noteq> [] \<and> isTrailingSurrogate (hd r)")
    case True
    then obtain w t where r: "r = w # t" by (cases r) auto
    have "0xFFFF < UTF16SurrogatePairToCodePoint v w" using True r pair_range(1) by simp
    moreover have "v \<noteq> 0x0A" using True not_surrogate_CR_LF by auto
    ultimately show ?thesis using True r Cons by (simp add: codePointAt_pair)
  next
    case False
    then show ?thesis using Cons by (simp add: codePointAt_unit word_unat_eq_iff)
  qed
qed

section \<open>Default options\<close>

text \<open>
  C7: \<open>defaultCleanOptions\<close> has the five category flags set, keeps TAB and LINE FEED
  but not CARRIAGE RETURN, removes ZERO WIDTH SPACE and has the three smart-replace
  flags set.
\<close>

theorem defaultCleanOptions_flags:
  "removeCc defaultCleanOptions \<and> removeCf defaultCleanOptions \<and> removeCs defaultCleanOptions
   \<and> removeCo defaultCleanOptions \<and> removeCn defaultCleanOptions
   \<and> preserveTab defaultCleanOptions \<and> preserveLF defaultCleanOptions
   \<and> \<not> preserveCR defaultCleanOptions
   \<and> removeZWSP defaultCleanOptions
   \<and> nbspToSpace defaultCleanOptions \<and> normalizeDashes defaultCleanOptions
   \<and> normalizeQuotes defaultCleanOptions"
  by (simp add: defaultCleanOptions_def)

section \<open>Cleaning never adds code points\<close>

lemma cleanText_loop_Nil: "cleanText_loop gc options [] out = out"
  by (subst cleanText_loop.simps) simp

lemma cleanText_loop_pair:
  assumes "isLeadingSurrogate u" "isTrailingSurrogate v"
  shows "cleanText_loop gc options (u # v # r) out =
         cleanText_loop gc options r
           (out @ clean_emit gc options (UTF16SurrogatePairToCodePoint u v) [u, v])"
  by (subst cleanText_loop.simps)
     (simp add: codePointAt_pair [OF assms] fromCodePoint_pair [OF assms])

lemma cleanText_loop_unit:
  assumes "\<not> (isLeadingSurrogate u \<and> us \<noteq> [] \<and> isTrailingSurrogate (hd us))"
  shows "cleanText_loop gc options (u # us) out =
         cleanText_loop gc options us (out @ clean_emit gc options (unat u) [u])"
  by (subst cleanText_loop.simps) (simp add: codePointAt_unit [OF assms])

lemma codePointCount_simps:
  "codePointCount [] = 0"
  "codePointCount [u] = 1"
  "isLeadingSurrogate u \<Longrightarrow> isTrailingSurrogate v \<Longrightarrow>
     codePointCount (u # v # r) = Suc (codePointCount r)"
  "\<not> (isLeadingSurrogate u \<and> isTrailingSurrogate v) \<Longrightarrow>
     codePointCount (u # v # r) = Suc (codePointCount (v # r))"
  by (auto simp: codePointCount_def)

lemma codePointCount_Cons_bounds:
  "codePointCount r \<le> codePointCount (v # r) \<and> codePointCount (v # r) \<le> Suc (codePointCount r)"
proof (induction r arbitrary: v)
  case Nil
  show ?case by (simp add: codePointCount_simps)
next
  case (Cons w ws)
  show ?case
  proof (cases "isLeadingSurrogate v \<and> isTrailingSurrogate w")
    case True
    then show ?thesis using Cons [of w] by (simp add: codePointCount_simps)
  next
    case False
    then show ?thesis by (simp add: codePointCount_simps)
  qed
qed

lemma codePointCount_append:
  "codePointCount (xs @ ys) \<le> codePointCount xs + codePointCount ys"
proof (induction xs rule: codePoints.induct)
  case 1
  show ?case by (simp add: codePointCount_simps)
next
  case (2 u)
  show ?case using codePointCount_Cons_bounds [of ys u] by (simp add: codePointCount_simps)
next
  case (3 u v r)
  show ?case
  proof (cases "isLeadingSurrogate u \<and> isTrailingSurrogate v")
    case True
    then show ?thesis using 3(1) by (simp add: codePointCount_simps)
  next
    case False
    then show ?thesis using 3(2) by (simp add: codePointCount_simps)
  qed
qed

lemma codePointCount_length1: "length xs = 1 \<Longrightarrow> codePointCount xs = 1"
  by (cases xs) (simp_all add: codePointCount_simps)

lemma DASH_MAP_Some: "DASH_MAP cp = Some d \<Longrightarrow> length d = 1"
  by (auto simp: DASH_MAP_def split: if_splits)

lemma QUOTE_MAP_Some: "QUOTE_MAP cp = Some d \<Longrightarrow> length d = 1"
  by (auto simp: QUOTE_MAP_def split: if_splits)

lemma clean_emit_cases:
  "clean_emit gc options cp ch = [] \<or> clean_emit gc options cp ch = ch
   \<or> length (clean_emit gc options cp ch) = 1"
proof -
  have d: "DASH_MAP cp \<noteq> None \<Longrightarrow> length (lit (the (DASH_MAP cp))) = 1"
    using DASH_MAP_Some [of cp] by (auto simp: lit_def)
  have q: "QUOTE_MAP cp \<noteq> None \<Longrightarrow> length (lit (the (QUOTE_MAP cp))) = 1"
    using QUOTE_MAP_Some [of cp] by (auto simp: lit_def)
  have s: "length (lit '' '') = 1" by (simp add: lit_def)
  show ?thesis
    unfolding clean_emit_def Let_def using d q s by presburger
qed

lemma clean_emit_count:
  assumes "codePointCount ch = 1"
  shows "codePointCount (clean_emit gc options cp ch) \<le> 1"
  using clean_emit_cases [of gc options cp ch] assms
  by (auto simp: codePointCount_simps codePointCount_length1)

lemma cleanText_loop_count:
  "codePointCount (cleanText_loop gc options rest out) \<le> codePointCount out + codePointCount rest"
proof (induction rest arbitrary: out rule: codePoints.induct)
  case 1
  show ?case by (simp add: cleanText_loop_Nil codePointCount_simps)
next
  case (2 u)
  have "codePointCount (out @ clean_emit gc options (unat u) [u])
        \<le> codePointCount out + codePointCount (clean_emit gc options (unat u) [u])"
    by (rule codePointCount_append)
  also have "\<dots> \<le> codePointCount out + 1"
    using clean_emit_count [of "[u]" gc options "unat u"] by (simp add: codePointCount_simps)
  finally show ?case
    by (simp add: cleanText_loop_unit cleanText_loop_Nil codePointCount_simps)
next
  case (3 u v r)
  show ?case
  proof (cases "isLeadingSurrogate u \<and> isTrailingSurrogate v")
    case True
    let ?e = "clean_emit gc options (UTF16SurrogatePairToCodePoint u v) [u, v]"
    have "codePointCount (cleanText_loop gc options r (out @ ?e))
          \<le> codePointCount (out @ ?e) + codePointCount r"
      using 3(1) [OF True] .
    also have "codePointCount (out @ ?e) \<le> codePointCount out + codePointCount ?e"
      by (rule codePointCount_append)
    also have "codePointCount ?e \<le> 1"
      using True by (intro clean_emit_count) (simp add: codePointCount_simps)
    finally show ?thesis
      using True by (simp add: cleanText_loop_pair codePointCount_simps)
  next
    case False
    let ?e = "clean_emit gc options (unat u) [u]"
    have "codePointCount (cleanText_loop gc options (v # r) (out @ ?e))
          \<le> codePointCount (out @ ?e) + codePointCount (v # r)"
      using 3(2) [OF False] .
    also have "codePointCount (out @ ?e) \<le> codePointCount out + codePointCount ?e"
      by (rule codePointCount_append)
    also have "codePointCount ?e \<le> 1"
      by (intro clean_emit_count) (simp add: codePointCount_simps)
    finally show ?thesis
      using False by (simp add: cleanText_loop_unit codePointCount_simps)
  qed
qed

text \<open>
  C6: for every text and every option record, the cleaned text has at most as many code
  points as the text.
\<close>

theorem cleanText_length_monotone:
  "codePointCount (cleanText gc s options) \<le> codePointCount s"
  using cleanText_loop_count [of gc options s "[]"]
  by (simp add: cleanText_def codePointCount_simps)

section \<open>Cleaning printable ASCII\<close>

lemma NAMED_ascii: "0x20 \<le> cp \<Longrightarrow> cp \<le> 0x7E \<Longrightarrow> NAMED cp = None"
  by (simp add: NAMED_def)

lemma DASH_MAP_ascii: "cp \<le> 0x7E \<Longrightarrow> DASH_MAP cp = None"
  by (simp add: DASH_MAP_def)

lemma QUOTE_MAP_ascii: "cp \<le> 0x7E \<Longrightarrow> QUOTE_MAP cp = None"
  by (simp add: QUOTE_MAP_def)

lemma clean_emit_ascii:
  assumes "0x20 \<le> cp" "cp \<le> 0x7E"
  shows "clean_emit gc options cp ch = ch"
  using assms
  by (simp add: clean_emit_def DASH_MAP_ascii QUOTE_MAP_ascii categoryOf_def NAMED_ascii)

lemma cleanText_loop_ascii:
  "printable_ascii rest \<Longrightarrow> cleanText_loop gc options rest out = out @ rest"
proof (induction rest arbitrary: out)
  case Nil
  show ?case by (simp add: cleanText_loop_Nil)
next
  case (Cons u us)
  then have u: "0x20 \<le> unat u" "unat u \<le> 0x7E" and us: "printable_ascii us"
    by (simp_all add: printable_ascii_def)
  have "\<not> isLeadingSurrogate u" using u by (simp add: isLeadingSurrogate_def)
  then show ?case
    using Cons.IH [OF us] u by (simp add: cleanText_loop_unit clean_emit_ascii)
qed

lemma cleanText_ascii: "printable_ascii s \<Longrightarrow> cleanText gc s options = s"
  by (simp add: cleanText_def cleanText_loop_ascii)

text \<open>
  C9: on a text of printable ASCII only, cleaning with the default options a second time
  changes nothing.
\<close>

theorem cleanText_idempotent_ascii:
  "printable_ascii s \<Longrightarrow>
   cleanText gc (cleanText gc s defaultCleanOptions) defaultCleanOptions
   = cleanText gc s defaultCleanOptions"
  by (simp add: cleanText_ascii)

theorem cleanText_idempotent_ascii_witness:
  "printable_ascii [0x48, 0x69, 0x21]
   \<and> cleanText unicode14 (cleanText unicode14 [0x48, 0x69, 0x21] defaultCleanOptions) defaultCleanOptions
     = cleanText unicode14 [0x48, 0x69, 0x21] defaultCleanOptions
   \<and> cleanText unicode14 [0x48, 0x69, 0x21] defaultCleanOptions = [0x48, 0x69, 0x21]"
proof -
  have p: "printable_ascii [0x48, 0x69, 0x21]" by (simp add: printable_ascii_def)
  show ?thesis
    using p cleanText_idempotent_ascii [OF p, of unicode14] cleanText_ascii [OF p, of unicode14 defaultCleanOptions]
    by simp
qed

section \<open>General categories of the code points used in the examples\<close>

lemma unicode14_samples:
  "unicode14 0x0a = Cc" "unicode14 0x0d = Cc" "unicode14 0x07 = Cc"
  "unicode14 0x61 = NotC" "unicode14 0x62 = NotC" "unicode14 0xa0 = NotC"
  "unicode14 0xad = Cf"
  by (simp_all add: unicode14_def C_ranges_def)

section \<open>Positions reported by the scan\<close>

lemma scan_loop_Nil:
  "findNonPrintableWithPositions_loop gc [] i ln col results = results"
  by (subst findNonPrintableWithPositions_loop.simps) simp

lemma scan_loop_pair:
  assumes "isLeadingSurrogate u" "isTrailingSurrogate v"
  shows "findNonPrintableWithPositions_loop gc (u # v # r) i ln col results =
         findNonPrintableWithPositions_loop gc r (i + 2) ln (col + 1)
           (if NON_PRINTABLE_REGEX gc (UTF16SurrogatePairToCodePoint u v)
            then results @ [\<lparr> index = i, char = [u, v],
                               codePoint = UTF16SurrogatePairToCodePoint u v,
                               name = nameOf (UTF16SurrogatePairToCodePoint u v),
                               category = categoryOf (UTF16SurrogatePairToCodePoint u v),
                               line = ln, column = col \<rparr>]
            else results)"
  using pair_range(1) [OF assms]
  by (subst findNonPrintableWithPositions_loop.simps)
     (simp add: codePointAt_pair [OF assms] fromCodePoint_pair [OF assms])

lemma scan_loop_CRLF:
  "findNonPrintableWithPositions_loop gc (0x0D # 0x0A # r) i ln col results =
   findNonPrintableWithPositions_loop gc r (i + 2) (ln + 1) 1
     (if NON_PRINTABLE_REGEX gc 0x0d
      then results @ [\<lparr> index = i, char = [0x0D], codePoint = 0x0d,
                         name = nameOf 0x0d, category = categoryOf 0x0d,
                         line = ln, column = col \<rparr>]
      else results)"
proof -
  have cp: "codePointAt (0x0D # 0x0A # r) 0 = Some 0x0d"
    using codePointAt_unit [of "0x0D" "0x0A # r"] by (simp add: not_surrogate_CR_LF)
  have ch: "fromCodePoint 0x0d = [0x0D]" "fromCodePoint 0x0a = [0x0A]"
    by (simp_all add: fromCodePoint_def)
  have nx: "codePointAt (0x0D # 0x0A # r) (Suc 0) = Some 0x0a"
    by (simp add: codePointAt_Suc codePointAt_0_eq_LF)
  show ?thesis
    by (subst findNonPrintableWithPositions_loop.simps) (simp add: cp ch nx)
qed

lemma scan_loop_unit:
  assumes "\<not> (isLeadingSurrogate u \<and> us \<noteq> [] \<and> isTrailingSurrogate (hd us))"
    and "\<not> (u = 0x0D \<and> us \<noteq> [] \<and> hd us = 0x0A)"
  shows "findNonPrintableWithPositions_loop gc (u # us) i ln col results =
         (if u = 0x0D \<or> u = 0x0A \<or> u = 0x2028 \<or> u = 0x2029
          then findNonPrintableWithPositions_loop gc us (i + 1) (ln + 1) 1
                 (if NON_PRINTABLE_REGEX gc (unat u)
                  then results @ [\<lparr> index = i, char = [u], codePoint = unat u,
                                     name = nameOf (unat u), category = categoryOf (unat u),
                                     line = ln, column = col \<rparr>]
                  else results)
          else findNonPrintableWithPositions_loop gc us (i + 1) ln (col + 1)
                 (if NON_PRINTABLE_REGEX gc (unat u)
                  then results @ [\<lparr> index = i, char = [u], codePoint = unat u,
                                     name = nameOf (unat u), category = categoryOf (unat u),
                                     line = ln, column = col \<rparr>]
                  else results))"
proof -
  have nx: "u = 0x0D \<Longrightarrow> codePointAt (u # us) (Suc 0) \<noteq> Some 0x0a"
    using assms(2) by (simp add: codePointAt_Suc codePointAt_0_eq_LF)
  show ?thesis
    using nx
    by (subst findNonPrintableWithPositions_loop.simps)
       (auto simp: codePointAt_unit [OF assms(1)] word_unat_eq_iff Let_def)
qed

lemma spec_positions_pair:
  assumes "isLeadingSurrogate u" "isTrailingSurrogate v"
  shows "spec_positions (u # v # r) i l c = (i, l, c) # spec_positions r (i + 2) l (c + 1)"
proof -
  have "u \<noteq> 0x0D" "u \<noteq> 0x0A" "u \<noteq> 0x2028" "u \<noteq> 0x2029"
    using assms(1) by (auto simp: isLeadingSurrogate_def)
  then show ?thesis using assms by (simp add: spec_positions.simps)
qed

lemma spec_positions_CRLF:
  "spec_positions (0x0D # 0x0A # r) i l c = (i, l, c) # spec_positions r (i + 2) (l + 1) 1"
  by (simp add: spec_positions.simps)

lemma spec_positions_unit:
  assumes "\<not> (isLeadingSurrogate u \<and> us \<noteq> [] \<and> isTrailingSurrogate (hd us))"
    and "\<not> (u = 0x0D \<and> us \<noteq> [] \<and> hd us = 0x0A)"
  shows "spec_positions (u # us) i l c =
         (i, l, c) # (if u = 0x0D \<or> u = 0x0A \<or> u = 0x2028 \<or> u = 0x2029
                      then spec_positions us (i + 1) (l + 1) 1
                      else spec_positions us (i + 1) l (c + 1))"
  using assms by (cases us) (auto simp: spec_positions.simps)

lemma spec_positions_lower:
  "(k, p) \<in> set (spec_positions s i l c) \<Longrightarrow> i \<le> k"
proof (induction s arbitrary: i l c rule: scan_induct)
  case Nil
  then show ?case by (simp add: spec_positions.simps)
next
  case (Pair u v r)
  from Pair.prems have "k = i \<or> (k, p) \<in> set (spec_positions r (i + 2) l (c + 1))"
    unfolding spec_positions_pair [OF Pair.hyps] by auto
  then show ?case using Pair.IH [of "i + 2" l "c + 1"] by auto
next
  case (CRLF r)
  from CRLF.prems have "k = i \<or> (k, p) \<in> set (spec_positions r (i + 2) (l + 1) 1)"
    unfolding spec_positions_CRLF by auto
  then show ?case using CRLF.IH [of "i + 2" "l + 1" 1] by auto
next
  case (Unit u us)
  from Unit.prems have "k = i \<or> (k, p) \<in> set (spec_positions us (i + 1) (l + 1) 1)
      \<or> (k, p) \<in> set (spec_positions us (i + 1) l (c + 1))"
    unfolding spec_positions_unit [OF Unit.hyps] by (auto split: if_splits)
  then show ?case using Unit.IH [of "i + 1" "l + 1" 1] Unit.IH [of "i + 1" l "c + 1"] by auto
qed

lemma spec_positions_fresh: "i < j \<Longrightarrow> i \<notin> fst ` set (spec_positions s j l c)"
  using spec_positions_lower [of i _ s j l c] by force

lemma spec_positions_distinct: "distinct (map fst (spec_positions s i l c))"
proof (induction s arbitrary: i l c rule: scan_induct)
  case Nil
  then show ?case by (simp add: spec_positions.simps)
next
  case (Pair u v r)
  show ?case
    unfolding spec_positions_pair [OF Pair.hyps]
    using Pair.IH [of "i + 2" l "c + 1"] spec_positions_fresh [of i "i + 2" r l "c + 1"]
    by simp
next
  case (CRLF r)
  show ?case
    unfolding spec_positions_CRLF
    using CRLF.IH [of "i + 2" "l + 1" 1] spec_positions_fresh [of i "i + 2" r "l + 1" 1]
    by simp
next
  case (Unit u us)
  show ?case
    unfolding spec_positions_unit [OF Unit.hyps]
    using Unit.IH [of "i + 1" "l + 1" 1] Unit.IH [of "i + 1" l "c + 1"]
      spec_positions_fresh [of i "i + 1" us "l + 1" 1]
      spec_positions_fresh [of i "i + 1" us l "c + 1"]
    by simp
qed

lemma scan_loop_positions:
  "occ \<in> set (findNonPrintableWithPositions_loop gc rest i ln col results) \<Longrightarrow>
   occ \<in> set results \<or> (index occ, line occ, column occ) \<in> set (spec_positions rest i ln col)"
proof (induction rest arbitrary: i ln col results rule: scan_induct)
  case Nil
  then show ?case by (simp add: scan_loop_Nil)
next
  case (Pair u v r)
  from Pair.prems show ?case
    unfolding scan_loop_pair [OF Pair.hyps] spec_positions_pair [OF Pair.hyps]
    by (auto dest!: Pair.IH split: if_splits)
next
  case (CRLF r)
  from CRLF.prems show ?case
    unfolding scan_loop_CRLF spec_positions_CRLF
    by (auto dest!: CRLF.IH split: if_splits)
next
  case (Unit u us)
  from Unit.prems show ?case
    unfolding scan_loop_unit [OF Unit.hyps] spec_positions_unit [OF Unit.hyps]
    by (auto dest!: Unit.IH split: if_splits)
qed

text \<open>
  C5: for every text and every occurrence that the scan reports, the reported line and
  column are those of the forward pass of the specification at the reported offset:
  the pass starts at line 1, column 1, takes CARRIAGE RETURN immediately followed by
  LINE FEED as one line break and goes on after both, takes CARRIAGE RETURN alone,
  LINE FEED alone, LINE SEPARATOR and PARAGRAPH SEPARATOR as line breaks, and counts one
  column for every other code point.
\<close>

theorem scan_positions_match_forward_pass:
  assumes "occ \<in> set (findNonPrintableWithPositions gc s)"
  shows "spec_position s (index occ) = Some (line occ, column occ)"
proof -
  have "(index occ, line occ, column occ) \<in> set (spec_positions s 0 1 1)"
    using scan_loop_positions [of occ gc s 0 1 1 "[]"] assms
    by (simp add: findNonPrintableWithPositions_def)
  then show ?thesis
    unfolding spec_position_def
    by (intro map_of_is_SomeI spec_positions_distinct)
qed

theorem scan_positions_match_forward_pass_witness:
  "\<lparr> index = 3, char = [0xAD], codePoint = 0xad, name = ''SOFT HYPHEN'',
      category = ''Cf'', line = 2, column = 1 \<rparr>
     \<in> set (findNonPrintableWithPositions unicode14 [0x61, 0x0D, 0x0A, 0xAD])
   \<and> spec_position [0x61, 0x0D, 0x0A, 0xAD] 3 = Some (2, 1)"
proof -
  let ?occ = "\<lparr> index = 3, char = [0xAD], codePoint = 0xad, name = ''SOFT HYPHEN'',
      category = ''Cf'', line = 2, column = 1 \<rparr>"
  have mem: "?occ \<in> set (findNonPrintableWithPositions unicode14 [0x61, 0x0D, 0x0A, 0xAD])"
    by (simp add: findNonPrintableWithPositions_def scan_loop_unit scan_loop_CRLF scan_loop_Nil
          isLeadingSurrogate_def NON_PRINTABLE_REGEX_def unicode14_samples
          nameOf_def categoryOf_def NAMED_def)
  show ?thesis
    using mem scan_positions_match_forward_pass [OF mem] by simp
qed

section \<open>CARRIAGE RETURN, LINE FEED in the annotated rendering\<close>

lemma vis_loop_Nil:
  "visualizeWithTokens_loop gc [] result cnt ln col = (result, cnt, ln, col)"
  by (subst visualizeWithTokens_loop.simps) simp

lemma vis_loop_pair:
  assumes "isLeadingSurrogate u" "isTrailingSurrogate v"
  shows "visualizeWithTokens_loop gc (u # v # r) result cnt ln col =
         visualizeWithTokens_loop gc r
           (if NON_PRINTABLE_REGEX gc (UTF16SurrogatePairToCodePoint u v)
            then result @ token_span (UTF16SurrogatePairToCodePoint u v) ln col
            else result @ escape [u, v])
           (if NON_PRINTABLE_REGEX gc (UTF16SurrogatePairToCodePoint u v) then cnt + 1 else cnt)
           ln (col + 1)"
  using pair_range(1) [OF assms]
  by (subst visualizeWithTokens_loop.simps)
     (simp add: codePointAt_pair [OF assms] fromCodePoint_pair [OF assms])

lemma vis_loop_CRLF:
  "visualizeWithTokens_loop gc (0x0D # 0x0A # r) result cnt ln col =
   visualizeWithTokens_loop gc r
     (if NON_PRINTABLE_REGEX gc 0x0d then result @ token_span 0x0d ln col
      else result @ escape [0x0D])
     (if NON_PRINTABLE_REGEX gc 0x0d then cnt + 1 else cnt)
     (ln + 1) 1"
proof -
  have cp: "codePointAt (0x0D # 0x0A # r) 0 = Some 0x0d"
    using codePointAt_unit [of "0x0D" "0x0A # r"] by (simp add: not_surrogate_CR_LF)
  have ch: "fromCodePoint 0x0d = [0x0D]" "fromCodePoint 0x0a = [0x0A]"
    by (simp_all add: fromCodePoint_def)
  have nx: "codePointAt (0x0D # 0x0A # r) (Suc 0) = Some 0x0a"
    by (simp add: codePointAt_Suc codePointAt_0_eq_LF)
  show ?thesis
    by (subst visualizeWithTokens_loop.simps) (simp add: cp ch nx)
qed

lemma vis_loop_unit:
  assumes "\<not> (isLeadingSurrogate u \<and> us \<noteq> [] \<and> isTrailingSurrogate (hd us))"
    and "\<not> (u = 0x0D \<and> us \<noteq> [] \<and> hd us = 0x0A)"
  shows "visualizeWithTokens_loop gc (u # us) result cnt ln col =
         (if u = 0x0D \<or> u = 0x0A \<or> u = 0x2028 \<or> u = 0x2029
          then visualizeWithTokens_loop gc us
                 (if NON_PRINTABLE_REGEX gc (unat u) then result @ token_span (unat u) ln col
                  else result @ escape [u])
                 (if NON_PRINTABLE_REGEX gc (unat u) then cnt + 1 else cnt)
                 (ln + 1) 1
          else visualizeWithTokens_loop gc us
                 (if NON_PRINTABLE_REGEX gc (unat u) then result @ token_span (unat u) ln col
                  else result @ escape [u])
                 (if NON_PRINTABLE_REGEX gc (unat u) then cnt + 1 else cnt)
                 ln (col + 1))"
proof -
  have nx: "u = 0x0D \<Longrightarrow> codePointAt (u # us) (Suc 0) \<noteq> Some 0x0a"
    using assms(2) by (simp add: codePointAt_Suc codePointAt_0_eq_LF)
  show ?thesis
    using nx
    by (subst visualizeWithTokens_loop.simps)
       (auto simp: codePointAt_unit [OF assms(1)] word_unat_eq_iff Let_def)
qed

lemma vis_loop_before_CR:
  "visualizeWithTokens_loop gc (pre @ 0x0D # rest) result cnt ln col =
   (case visualizeWithTokens_loop gc pre result cnt ln col of
      (result', cnt', ln', col') \<Rightarrow>
        visualizeWithTokens_loop gc (0x0D # rest) result' cnt' ln' col')"
proof (induction pre arbitrary: result cnt ln col rule: scan_induct)
  case Nil
  show ?case by (simp add: vis_loop_Nil)
next
  case (Pair u v r)
  show ?case
    using Pair.IH by (simp add: vis_loop_pair [OF Pair.hyps])
next
  case (CRLF r)
  show ?case
    using CRLF.IH by (simp add: vis_loop_CRLF)
next
  case (Unit u us)
  have 1: "\<not> (isLeadingSurrogate u \<and> us @ 0x0D # rest \<noteq> []
              \<and> isTrailingSurrogate (hd (us @ 0x0D # rest)))"
    using Unit.hyps(1) by (cases us) (auto simp: not_surrogate_CR_LF)
  have 2: "\<not> (u = 0x0D \<and> us @ 0x0D # rest \<noteq> [] \<and> hd (us @ 0x0D # rest) = 0x0A)"
    using Unit.hyps(2) by (cases us) auto
  show ?case
    using Unit.IH
    by (simp add: vis_loop_unit [OF Unit.hyps] vis_loop_unit [OF 1 2])
qed

text \<open>
  The placeholder of a CARRIAGE RETURN at a line and a column, written out: the
  \<open>span\<close> of class \<open>token-cc\<close> whose title names the code point, its category and
  the position, around the glyph \<open>&#9676;\<close>.
\<close>

lemma replace_all_append:
  "replace_all c r (a @ b) = replace_all c r a @ replace_all c r b"
  by (simp add: replace_all_def)

lemma escape_append: "escape (a @ b) = escape a @ escape b"
  by (simp add: escape_def replace_all_append)

lemma replace_all_absent: "c \<notin> set s \<Longrightarrow> replace_all c r s = s"
  by (induction s) (auto simp: replace_all_def)

lemma escape_plain:
  "0x26 \<notin> set s \<Longrightarrow> 0x3C \<notin> set s \<Longrightarrow> 0x3E \<notin> set s \<Longrightarrow> escape s = s"
  by (simp add: escape_def replace_all_absent)

lemma toString10_digits: "set (toString10 n) \<subseteq> set ''0123456789''"
proof (induction n rule: toString10.induct)
  case (1 n)
  show ?case
  proof (cases "n < 10")
    case True
    then have "''0123456789'' ! n \<in> set ''0123456789''"
      by (intro nth_mem) simp
    then show ?thesis using True by (subst toString10.simps) simp
  next
    case False
    have "n mod 10 < 10" by simp
    then have "''0123456789'' ! (n mod 10) \<in> set ''0123456789''"
      by (intro nth_mem) simp
    then show ?thesis
      using False 1 by (subst toString10.simps) simp
  qed
qed

lemma escape_toString10: "escape (lit (toString10 n)) = lit (toString10 n)"
proof -
  have "set (lit (toString10 n)) \<subseteq> (\<lambda>c. of_nat (of_char c)) ` set ''0123456789''"
    using toString10_digits [of n] by (auto simp: lit_def)
  then have "0x26 \<notin> set (lit (toString10 n))" "0x3C \<notin> set (lit (toString10 n))"
    "0x3E \<notin> set (lit (toString10 n))"
    by auto
  then show ?thesis by (rule escape_plain)
qed

lemma hex_CR: "hex 0x0d = ''U+000D''"
proof -
  have "toString16 13 = ''d''" by (subst toString16.simps) simp
  moreover have "toUpperCase ''d'' = ''D''" by code_simp
  moreover have "replicate (4 - length ''D'') (CHR ''0'') = ''000''"
    by (simp add: numeral_3_eq_3)
  ultimately show ?thesis by (simp add: hex_def padStart_def)
qed

lemma token_span_CR:
  \<open>token_span 0x0d ln col =
     lit ''<span class="token token-cc" title="CARRIAGE RETURN (U+000D) '' @ [0x2014]
     @ lit '' Category Cc '' @ [0x2014] @ lit '' at '' @ lit (toString10 ln) @ lit '':''
     @ lit (toString10 col) @ lit ''">&#9676;</span>''\<close>
proof -
  define P where "P = lit ''CARRIAGE RETURN'' @ lit '' ('' @ lit ''U+000D'' @ lit '') '' @ [0x2014]
              @ lit '' Category '' @ lit ''Cc'' @ lit '' '' @ [0x2014] @ lit '' at ''"
  define Q where "Q = lit ''CARRIAGE RETURN (U+000D) '' @ [0x2014] @ lit '' Category Cc ''
              @ [0x2014] @ lit '' at ''"
  have n: "nameOf 0x0d = ''CARRIAGE RETURN''" "categoryOf 0x0d = ''Cc''"
    by (simp_all add: nameOf_def categoryOf_def NAMED_def)
  have c: "classifyToken 0x0d ''Cc'' = ''token-cc''"
    by (simp add: classifyToken_def)
  have e1: "escape P = Q"
    unfolding P_def Q_def by (simp add: escape_def replace_all_def lit_def)
  have e2: "escape (lit '':'') = lit '':''"
    by (simp add: escape_def replace_all_def lit_def)
  have tt: "token_title 0x0d ln col
            = P @ (lit (toString10 ln) @ (lit '':'' @ lit (toString10 col)))"
    unfolding P_def by (simp add: token_title_def n hex_CR)
  have t: "escape (token_title 0x0d ln col)
           = Q @ (lit (toString10 ln) @ (lit '':'' @ lit (toString10 col)))"
    unfolding tt escape_append e1 e2 escape_toString10 ..
  show ?thesis
    unfolding token_span_def n c t Q_def by (simp add: lit_def)
qed

lemma toString10_small: "n < 10 \<Longrightarrow> toString10 n = [''0123456789'' ! n]"
  by (subst toString10.simps) simp

text \<open>
  C10: for every text that contains CARRIAGE RETURN immediately followed by LINE FEED,
  that is every text \<open>pre @ [CR, LF] @ post\<close>, \<open>visualizeWithTokens\<close> renders \<open>pre\<close>,
  appends the placeholder of the CARRIAGE RETURN (the \<open>span\<close> of class \<open>token-cc\<close>
  with the glyph \<open>&#9676;\<close> and the title of the position reached) and counts it, and
  goes on with \<open>post\<close> on the next line: nothing is appended to the markup and nothing
  is counted for the LINE FEED. The CARRIAGE RETURN is in the class of the expression
  (its general category is Cc).
\<close>

theorem visualize_CRLF:
  assumes "NON_PRINTABLE_REGEX gc 0x0d"
  shows \<open>visualizeWithTokens gc (pre @ [0x0D, 0x0A] @ post) =
         (case visualizeWithTokens_loop gc pre [] 0 1 1 of
            (result, cnt, ln, col) \<Rightarrow>
              (case visualizeWithTokens_loop gc post
                      (result
                       @ lit ''<span class="token token-cc" title="CARRIAGE RETURN (U+000D) ''
                       @ [0x2014] @ lit '' Category Cc '' @ [0x2014] @ lit '' at ''
                       @ lit (toString10 ln) @ lit '':'' @ lit (toString10 col)
                       @ lit ''">&#9676;</span>'')
                      (cnt + 1) (ln + 1) 1 of
                 (result', cnt', ln', col') \<Rightarrow> (result', cnt')))\<close>
  using assms
  by (simp add: visualizeWithTokens_def vis_loop_before_CR vis_loop_CRLF token_span_CR
        split: prod.splits)

theorem visualize_CRLF_witness:
  \<open>NON_PRINTABLE_REGEX unicode14 0x0d
   \<and> visualizeWithTokens unicode14 ([0x61] @ [0x0D, 0x0A] @ [0x62])
     = ([0x61]
        @ lit ''<span class="token token-cc" title="CARRIAGE RETURN (U+000D) '' @ [0x2014]
        @ lit '' Category Cc '' @ [0x2014] @ lit '' at 1:2">&#9676;</span>'' @ [0x62], 1)\<close>
proof -
  have h: "NON_PRINTABLE_REGEX unicode14 0x0d"
    by (simp add: NON_PRINTABLE_REGEX_def unicode14_samples)
  have esc: "escape [0x61] = [0x61]" "escape [0x62] = [0x62]"
    by (simp_all add: escape_def replace_all_def)
  have d: "toString10 (Suc 0) = ''1''" "toString10 (Suc (Suc 0)) = ''2''"
    by (simp_all add: toString10_small)
  have pre: "visualizeWithTokens_loop unicode14 [0x61] [] 0 (Suc 0) (Suc 0)
             = ([0x61], 0, Suc 0, Suc (Suc 0))"
    by (simp add: vis_loop_unit vis_loop_Nil isLeadingSurrogate_def
          NON_PRINTABLE_REGEX_def unicode14_samples esc)
  have post: "\<And>r. visualizeWithTokens_loop unicode14 [0x62] r (Suc 0) (Suc (Suc 0)) (Suc 0)
             = (r @ [0x62], Suc 0, Suc (Suc 0), Suc (Suc 0))"
    by (simp add: vis_loop_unit vis_loop_Nil isLeadingSurrogate_def
          NON_PRINTABLE_REGEX_def unicode14_samples esc)
  show ?thesis
    using h visualize_CRLF [OF h, of "[0x61]" "[0x62]"]
    by (simp add: pre post d lit_def)
qed

section \<open>The frequency table\<close>

lemma matchAll_Nil: "matchAll gc [] i = []"
  by (subst matchAll.simps) simp

lemma matchAll_pair:
  assumes "isLeadingSurrogate u" "isTrailingSurrogate v"
  shows "matchAll gc (u # v # r) i =
         (if NON_PRINTABLE_REGEX gc (UTF16SurrogatePairToCodePoint u v) then [(i, [u, v])] else [])
         @ matchAll gc r (i + 2)"
  using pair_range(1) [OF assms]
  by (subst matchAll.simps) (simp add: codePointAt_pair [OF assms])

lemma matchAll_unit:
  assumes "\<not> (isLeadingSurrogate u \<and> us \<noteq> [] \<and> isTrailingSurrogate (hd us))"
  shows "matchAll gc (u # us) i =
         (if NON_PRINTABLE_REGEX gc (unat u) then [(i, [u])] else []) @ matchAll gc us (i + 1)"
  using unat_lt_65536 [of u]
  by (subst matchAll.simps) (simp add: codePointAt_unit [OF assms])

lemma codePointAt_single: "codePointAt [u] 0 = Some (unat u)"
  by (simp add: codePointAt_unit)

lemma matchAll_codePoints:
  "map (\<lambda>m. the (codePointAt (snd m) 0)) (matchAll gc s i)
   = filter (NON_PRINTABLE_REGEX gc) (codePoints s)"
proof (induction s arbitrary: i rule: codePoints.induct)
  case 1
  show ?case by (simp add: matchAll_Nil)
next
  case (2 u)
  show ?case by (simp add: matchAll_unit matchAll_Nil codePointAt_single)
next
  case (3 u v r)
  show ?case
  proof (cases "isLeadingSurrogate u \<and> isTrailingSurrogate v")
    case True
    then have uv: "isLeadingSurrogate u" "isTrailingSurrogate v" by simp_all
    have cps: "codePoints (u # v # r) = UTF16SurrogatePairToCodePoint u v # codePoints r"
      using uv by simp
    show ?thesis
      using 3(1) [OF True, of "i + 2"]
      by (simp add: matchAll_pair [OF uv] codePointAt_pair [OF uv] cps del: codePoints.simps)
  next
    case False
    then have c: "\<not> (isLeadingSurrogate u \<and> v # r \<noteq> [] \<and> isTrailingSurrogate (hd (v # r)))"
      by simp
    have cps: "codePoints (u # v # r) = unat u # codePoints (v # r)"
      using False by auto
    show ?thesis
      using 3(2) [OF False, of "i + 1"]
      by (simp add: matchAll_unit [OF c] codePointAt_single cps del: codePoints.simps)
  qed
qed

lemma summarize_step_count:
  "(case map_of (summarize_step freq m) k of None \<Rightarrow> 0 | Some v \<Rightarrow> tally_count v)
   = (case map_of freq k of None \<Rightarrow> 0 | Some v \<Rightarrow> tally_count v)
     + (if the (codePointAt (snd m) 0) = k then 1 else 0)"
  by (simp add: summarize_step_def Let_def update_conv' split: option.splits)

lemma summarize_step_keys:
  "fst ` set (summarize_step freq m) = insert (the (codePointAt (snd m) 0)) (fst ` set freq)"
  by (simp add: summarize_step_def Let_def dom_update)

lemma summarize_step_distinct:
  "distinct (map fst freq) \<Longrightarrow> distinct (map fst (summarize_step freq m))"
  by (simp add: summarize_step_def Let_def distinct_update)

lemma summarize_fold_count:
  "(case map_of (foldl summarize_step freq ms) k of None \<Rightarrow> 0 | Some v \<Rightarrow> tally_count v)
   = (case map_of freq k of None \<Rightarrow> 0 | Some v \<Rightarrow> tally_count v)
     + count_list (map (\<lambda>m. the (codePointAt (snd m) 0)) ms) k"
  by (induction ms arbitrary: freq) (simp_all add: summarize_step_count)

lemma summarize_fold_keys:
  "fst ` set (foldl summarize_step freq ms)
   = fst ` set freq \<union> set (map (\<lambda>m. the (codePointAt (snd m) 0)) ms)"
  by (induction ms arbitrary: freq) (auto simp: summarize_step_keys)

lemma summarize_fold_distinct:
  "distinct (map fst freq) \<Longrightarrow> distinct (map fst (foldl summarize_step freq ms))"
  by (induction ms arbitrary: freq) (simp_all add: summarize_step_distinct)

lemma summarize_freq_keys:
  "fst ` set (summarize_freq gc s) = {cp \<in> set (codePoints s). NON_PRINTABLE_REGEX gc cp}"
  by (auto simp: summarize_freq_def summarize_fold_keys matchAll_codePoints)

lemma summarize_freq_distinct: "distinct (map fst (summarize_freq gc s))"
  by (simp add: summarize_freq_def summarize_fold_distinct)

lemma count_list_filter: "P k \<Longrightarrow> count_list (filter P xs) k = count_list xs k"
  by (induction xs) auto

lemma summarize_freq_count:
  assumes "(k, v) \<in> set (summarize_freq gc s)"
  shows "tally_count v = count_list (codePoints s) k"
proof -
  have np: "NON_PRINTABLE_REGEX gc k"
    using assms summarize_freq_keys [of gc s] by force
  have "map_of (summarize_freq gc s) k = Some v"
    using assms summarize_freq_distinct by (simp add: map_of_is_SomeI)
  then have "tally_count v = count_list (filter (NON_PRINTABLE_REGEX gc) (codePoints s)) k"
    using summarize_fold_count [of "[]" "matchAll gc s 0" k]
    by (simp add: summarize_freq_def matchAll_codePoints)
  also have "\<dots> = count_list (codePoints s) k"
    using np by (rule count_list_filter)
  finally show ?thesis .
qed


text \<open>The stable insertion sort orders by a total, transitive comparator and permutes.\<close>

lemma set_insert_sorted: "set (insert_sorted cmp x ys) = insert x (set ys)"
  by (induction ys) auto

lemma set_array_sort: "set (array_sort cmp xs) = set xs"
  by (induction xs) (simp_all add: set_insert_sorted)

lemma distinct_map_insert_sorted:
  "distinct (map f (insert_sorted cmp x ys)) = (f x \<notin> f ` set ys \<and> distinct (map f ys))"
  by (induction ys) (auto simp: set_insert_sorted)

lemma distinct_map_array_sort:
  "distinct (map f (array_sort cmp xs)) = distinct (map f xs)"
  by (induction xs) (simp_all add: distinct_map_insert_sorted set_array_sort)

lemma sum_list_insert_sorted:
  "sum_list (map f (insert_sorted cmp x ys)) = f x + sum_list (map (f :: 'a \<Rightarrow> nat) ys)"
  by (induction ys) auto

lemma sum_list_array_sort:
  "sum_list (map f (array_sort cmp xs)) = sum_list (map (f :: 'a \<Rightarrow> nat) xs)"
  by (induction xs) (simp_all add: sum_list_insert_sorted)

lemma sorted_insert_sorted:
  assumes total: "\<And>a b. \<not> cmp a b \<le> 0 \<Longrightarrow> cmp b a \<le> 0"
    and trans: "\<And>a b c. cmp a b \<le> 0 \<Longrightarrow> cmp b c \<le> 0 \<Longrightarrow> cmp a c \<le> 0"
  shows "sorted_wrt (\<lambda>a b. cmp a b \<le> 0) ys \<Longrightarrow>
         sorted_wrt (\<lambda>a b. cmp a b \<le> 0) (insert_sorted cmp x ys)"
proof (induction ys)
  case Nil
  show ?case by simp
next
  case (Cons y ys)
  show ?case
  proof (cases "cmp x y \<le> 0")
    case True
    then have "\<forall>z \<in> set ys. cmp x z \<le> 0"
      using Cons.prems trans by auto
    then show ?thesis using True Cons.prems by simp
  next
    case False
    then have "cmp y x \<le> 0" by (rule total)
    then show ?thesis
      using False Cons by (auto simp: set_insert_sorted)
  qed
qed

lemma sorted_array_sort:
  assumes total: "\<And>a b. \<not> cmp a b \<le> 0 \<Longrightarrow> cmp b a \<le> 0"
    and trans: "\<And>a b c. cmp a b \<le> 0 \<Longrightarrow> cmp b c \<le> 0 \<Longrightarrow> cmp a c \<le> 0"
  shows "sorted_wrt (\<lambda>a b. cmp a b \<le> 0) (array_sort cmp xs)"
  by (induction xs) (simp_all add: sorted_insert_sorted [OF total trans])

lemma compareEntries_le:
  "compareEntries a b \<le> 0 \<longleftrightarrow>
   count b < count a \<or> (count a = count b \<and> entry_codePoint a \<le> entry_codePoint b)"
  by (auto simp: compareEntries_def)

lemma sorted_wrt_distinct_strict:
  "sorted_wrt R xs \<Longrightarrow> distinct (map f xs) \<Longrightarrow>
   sorted_wrt (\<lambda>a b. R a b \<and> f a \<noteq> f b) xs"
  by (induction xs) auto

lemma summarize_sorted:
  "sorted_wrt (\<lambda>a b. compareEntries a b \<le> 0) (summarizeNonPrintable gc s)"
  unfolding summarizeNonPrintable_def
  by (rule sorted_array_sort) (auto simp: compareEntries_le)

lemma summarize_codePoints:
  "map entry_codePoint
     (map (\<lambda>(cp, v). \<lparr> entry_codePoint = cp, entry_name = tally_name v,
                        entry_category = tally_category v, count = tally_count v \<rparr>) freq)
   = map fst freq"
  by (induction freq) auto

lemma summarize_distinct: "distinct (map entry_codePoint (summarizeNonPrintable gc s))"
  unfolding summarizeNonPrintable_def distinct_map_array_sort summarize_codePoints
  by (rule summarize_freq_distinct)

lemma summarize_set:
  "entry_codePoint ` set (summarizeNonPrintable gc s)
   = {cp \<in> set (codePoints s). NON_PRINTABLE_REGEX gc cp}"
proof -
  have "entry_codePoint ` set (summarizeNonPrintable gc s)
        = set (map entry_codePoint (summarizeNonPrintable gc s))"
    by simp
  also have "\<dots> = set (map entry_codePoint
            (map (\<lambda>(cp, v). \<lparr> entry_codePoint = cp, entry_name = tally_name v,
                        entry_category = tally_category v, count = tally_count v \<rparr>)
                 (summarize_freq gc s)))"
    unfolding summarizeNonPrintable_def set_map set_array_sort ..
  also have "\<dots> = fst ` set (summarize_freq gc s)"
    unfolding summarize_codePoints by simp
  finally show ?thesis by (simp add: summarize_freq_keys)
qed

lemma summarize_count:
  assumes "e \<in> set (summarizeNonPrintable gc s)"
  shows "count e = count_list (codePoints s) (entry_codePoint e)"
proof -
  from assms obtain k v where kv: "(k, v) \<in> set (summarize_freq gc s)"
    and e: "e = \<lparr> entry_codePoint = k, entry_name = tally_name v,
                   entry_category = tally_category v, count = tally_count v \<rparr>"
    by (auto simp: summarizeNonPrintable_def set_array_sort)
  show ?thesis using summarize_freq_count [OF kv] e by simp
qed

text \<open>
  C8: for every text, \<open>summarizeNonPrintable\<close> returns one entry per distinct code point
  of the text that is in the class of the expression and no other entry, the count of
  an entry is the number of times its code point occurs in the text, and the entries
  are in descending order of count, entries of equal count in ascending order of code
  point.
\<close>

theorem summarize_frequency_table:
  "distinct (map entry_codePoint (summarizeNonPrintable gc s))
   \<and> entry_codePoint ` set (summarizeNonPrintable gc s)
       = {cp \<in> set (codePoints s). NON_PRINTABLE_REGEX gc cp}
   \<and> (\<forall>e \<in> set (summarizeNonPrintable gc s).
         count e = count_list (codePoints s) (entry_codePoint e))
   \<and> sorted_wrt (\<lambda>a b. count b < count a
                      \<or> (count a = count b \<and> entry_codePoint a < entry_codePoint b))
        (summarizeNonPrintable gc s)"
proof -
  have "sorted_wrt (\<lambda>a b. compareEntries a b \<le> 0 \<and> entry_codePoint a \<noteq> entry_codePoint b)
          (summarizeNonPrintable gc s)"
    using summarize_sorted summarize_distinct by (rule sorted_wrt_distinct_strict)
  then have "sorted_wrt (\<lambda>a b. count b < count a
                      \<or> (count a = count b \<and> entry_codePoint a < entry_codePoint b))
        (summarizeNonPrintable gc s)"
    by (rule sorted_wrt_mono_rel [rotated]) (auto simp: compareEntries_le)
  then show ?thesis
    using summarize_distinct summarize_set summarize_count by blast
qed


theorem summarize_frequency_table_witness:
  "\<lparr> entry_codePoint = 0x0a, entry_name = ''LINE FEED'', entry_category = ''Cc'', count = 2 \<rparr>
     \<in> set (summarizeNonPrintable unicode14 [0x0A, 0x0D, 0x0A])
   \<and> count_list (codePoints [0x0A, 0x0D, 0x0A]) 0x0a = 2
   \<and> summarizeNonPrintable unicode14 [0x0A, 0x0D, 0x0A]
     = [\<lparr> entry_codePoint = 0x0a, entry_name = ''LINE FEED'', entry_category = ''Cc'', count = 2 \<rparr>,
        \<lparr> entry_codePoint = 0x0d, entry_name = ''CARRIAGE RETURN'', entry_category = ''Cc'',
          count = 1 \<rparr>]"
proof -
  have ev: "summarizeNonPrintable unicode14 [0x0A, 0x0D, 0x0A]
     = [\<lparr> entry_codePoint = 0x0a, entry_name = ''LINE FEED'', entry_category = ''Cc'', count = 2 \<rparr>,
        \<lparr> entry_codePoint = 0x0d, entry_name = ''CARRIAGE RETURN'', entry_category = ''Cc'',
          count = 1 \<rparr>]"
    by (simp add: summarizeNonPrintable_def summarize_freq_def summarize_step_def
          matchAll_unit matchAll_Nil isLeadingSurrogate_def NON_PRINTABLE_REGEX_def
          unicode14_samples codePointAt_single nameOf_def categoryOf_def NAMED_def
          compareEntries_def)
  let ?e = "\<lparr> entry_codePoint = 0x0a, entry_name = ''LINE FEED'', entry_category = ''Cc'',
              count = 2 \<rparr>"
  have mem: "?e \<in> set (summarizeNonPrintable unicode14 [0x0A, 0x0D, 0x0A])"
    unfolding ev by simp
  have "count ?e = count_list (codePoints [0x0A, 0x0D, 0x0A]) (entry_codePoint ?e)"
    using summarize_frequency_table [of unicode14 "[0x0A, 0x0D, 0x0A]"] mem by blast
  then have "count_list (codePoints [0x0A, 0x0D, 0x0A]) 0x0a = 2" by simp
  then show ?thesis using mem ev by blast
qed

text \<open>The counts of the frequency table add up to the number of matches of the expression.\<close>

lemma update_tally_sum:
  "sum_list (map (\<lambda>p. tally_count (snd p)) (AList.update k v al))
     + (case map_of al k of None \<Rightarrow> 0 | Some w \<Rightarrow> tally_count w)
   = sum_list (map (\<lambda>p. tally_count (snd p)) al) + tally_count v"
  by (induction al) auto

lemma summarize_step_sum:
  "sum_list (map (\<lambda>p. tally_count (snd p)) (summarize_step freq m))
   = Suc (sum_list (map (\<lambda>p. tally_count (snd p)) freq))"
proof (cases "map_of freq (the (codePointAt (snd m) 0))")
  case None
  then show ?thesis
    using update_tally_sum [of "the (codePointAt (snd m) 0)"
        "\<lparr> tally_count = Suc 0, tally_name = nameOf (the (codePointAt (snd m) 0)),
           tally_category = categoryOf (the (codePointAt (snd m) 0)) \<rparr>" freq]
    by (simp add: summarize_step_def Let_def)
next
  case (Some w)
  then show ?thesis
    using update_tally_sum [of "the (codePointAt (snd m) 0)"
        "w \<lparr> tally_count := Suc (tally_count w) \<rparr>" freq]
    by (simp add: summarize_step_def Let_def)
qed

lemma summarize_fold_sum:
  "sum_list (map (\<lambda>p. tally_count (snd p)) (foldl summarize_step freq ms))
   = sum_list (map (\<lambda>p. tally_count (snd p)) freq) + length ms"
  by (induction ms arbitrary: freq) (simp_all add: summarize_step_sum)

lemma summarize_count_total:
  "sum_list (map count (summarizeNonPrintable gc s)) = length (findNonPrintable gc s)"
proof -
  have "sum_list (map count (summarizeNonPrintable gc s))
        = sum_list (map (\<lambda>p. tally_count (snd p)) (summarize_freq gc s))"
    unfolding summarizeNonPrintable_def sum_list_array_sort
    by (simp add: comp_def case_prod_unfold)
  then show ?thesis
    by (simp add: summarize_freq_def summarize_fold_sum findNonPrintable_def)
qed

section \<open>Removal by category\<close>

text \<open>
  The category that \<open>cleanText\<close> consults is the string of the table \<open>NAMED\<close>, with
  \<open>"C*"\<close> for every code point the table does not name; \<open>"C*"\<close> starts with none of
  \<open>"Cc"\<close>, \<open>"Cf"\<close>, \<open>"Cs"\<close>, \<open>"Co"\<close>, \<open>"Cn"\<close>. A code point outside the table and
  outside the smart-replace maps is therefore kept, whatever the flags and whatever its
  general category.
\<close>

lemma clean_emit_unnamed:
  assumes "NAMED cp = None" "DASH_MAP cp = None" "QUOTE_MAP cp = None"
  shows "clean_emit gc options cp ch = ch"
proof -
  have "cp \<noteq> 0x00a0" "cp \<noteq> 0x200b" "cp \<noteq> 0x09" "cp \<noteq> 0x0a" "cp \<noteq> 0x0d"
    using assms(1) by (auto simp: NAMED_def)
  then show ?thesis
    using assms by (simp add: clean_emit_def categoryOf_def)
qed

text \<open>
  C1 says that a code point of the class, with no smart-replace rule and no
  preservation override, is dropped exactly when the flag of its general category is
  set. BELL (U+0007) has general category Cc and \<open>removeCc\<close> is set in the default
  options, yet \<open>cleanText\<close> keeps it.
\<close>

theorem cleanText_keeps_unnamed_control:
  "unicode14 0x07 = Cc \<and> removeCc defaultCleanOptions
   \<and> cleanText unicode14 [0x07] defaultCleanOptions = [0x07]"
proof -
  have "clean_emit unicode14 defaultCleanOptions 0x07 [0x07] = [0x07]"
    by (rule clean_emit_unnamed) (simp_all add: NAMED_def DASH_MAP_def QUOTE_MAP_def)
  then show ?thesis
    by (simp add: cleanText_def cleanText_loop_unit cleanText_loop_Nil isLeadingSurrogate_def
          unicode14_samples defaultCleanOptions_def)
qed

section \<open>CARRIAGE RETURN, LINE FEED in the two detection passes\<close>

text \<open>
  \<open>findNonPrintable\<close> and \<open>summarizeNonPrintable\<close> go through the matches of the
  expression; \<open>findNonPrintableWithPositions\<close> runs its own loop. On a text without
  CARRIAGE RETURN immediately followed by LINE FEED the two agree.
\<close>

lemma has_CRLF_Cons: "has_CRLF us \<Longrightarrow> has_CRLF (u # us)"
  by (cases us) auto

lemma scan_loop_acc:
  "findNonPrintableWithPositions_loop gc rest i ln col results
   = results @ findNonPrintableWithPositions_loop gc rest i ln col []"
proof (induction rest arbitrary: i ln col results rule: scan_induct)
  case Nil
  show ?case by (simp add: scan_loop_Nil)
next
  case (Pair u v r)
  show ?case
    unfolding scan_loop_pair [OF Pair.hyps]
    using Pair.IH [of "i + 2" ln "col + 1" "results @ [_]"] Pair.IH [of "i + 2" ln "col + 1" "[_]"]
      Pair.IH [of "i + 2" ln "col + 1" results]
    by simp
next
  case (CRLF r)
  show ?case
    unfolding scan_loop_CRLF
    using CRLF.IH [of "i + 2" "ln + 1" 1 "results @ [_]"] CRLF.IH [of "i + 2" "ln + 1" 1 "[_]"]
      CRLF.IH [of "i + 2" "ln + 1" 1 results]
    by simp
next
  case (Unit u us)
  show ?case
    unfolding scan_loop_unit [OF Unit.hyps]
    using Unit.IH [of "i + 1" "ln + 1" 1 "results @ [_]"] Unit.IH [of "i + 1" "ln + 1" 1 "[_]"]
      Unit.IH [of "i + 1" "ln + 1" 1 results]
      Unit.IH [of "i + 1" ln "col + 1" "results @ [_]"] Unit.IH [of "i + 1" ln "col + 1" "[_]"]
      Unit.IH [of "i + 1" ln "col + 1" results]
    by simp
qed

lemma scan_loop_without_CRLF:
  "\<not> has_CRLF rest \<Longrightarrow>
   map NonPrintableMatch.truncate (findNonPrintableWithPositions_loop gc rest i ln col [])
   = map (\<lambda>(m_index, m0).
            let ch = m0; cp = the (codePointAt ch 0)
            in \<lparr> index = m_index, char = ch, codePoint = cp,
                 name = nameOf cp, category = categoryOf cp \<rparr>)
         (matchAll gc rest i)"
proof (induction rest arbitrary: i ln col rule: scan_induct)
  case Nil
  show ?case by (simp add: scan_loop_Nil matchAll_Nil)
next
  case (Pair u v r)
  have "\<not> has_CRLF r" using Pair.prems has_CRLF_Cons [of r v] by auto
  then show ?case
    using Pair.IH [of "i + 2" ln "col + 1"]
      scan_loop_acc [of gc r "i + 2" ln "col + 1" "[_]"]
    by (simp add: scan_loop_pair [OF Pair.hyps] matchAll_pair [OF Pair.hyps]
          codePointAt_pair [OF Pair.hyps] NonPrintableMatch.truncate_def Let_def)
next
  case (CRLF r)
  then show ?case by simp
next
  case (Unit u us)
  have "\<not> has_CRLF us" using Unit.prems has_CRLF_Cons by blast
  then show ?case
    using Unit.IH [of "i + 1" "ln + 1" 1] Unit.IH [of "i + 1" ln "col + 1"]
      scan_loop_acc [of gc us "i + 1" "ln + 1" 1 "[_]"]
      scan_loop_acc [of gc us "i + 1" ln "col + 1" "[_]"]
    by (simp add: scan_loop_unit [OF Unit.hyps] matchAll_unit [OF Unit.hyps(1)]
          codePointAt_single NonPrintableMatch.truncate_def Let_def)
qed

lemma flat_list_is_stripped_scan_without_CRLF:
  "\<not> has_CRLF s \<Longrightarrow>
   map NonPrintableMatch.truncate (findNonPrintableWithPositions gc s) = findNonPrintable gc s"
  by (simp add: findNonPrintableWithPositions_def findNonPrintable_def scan_loop_without_CRLF)

lemma count_conservation_without_CRLF:
  assumes "\<not> has_CRLF s"
  shows "sum_list (map count (summarizeNonPrintable gc s))
         = length (findNonPrintableWithPositions gc s)"
proof -
  have "length (findNonPrintableWithPositions gc s)
        = length (map NonPrintableMatch.truncate (findNonPrintableWithPositions gc s))"
    by simp
  also have "\<dots> = length (findNonPrintable gc s)"
    unfolding flat_list_is_stripped_scan_without_CRLF [OF assms] ..
  finally show ?thesis by (simp add: summarize_count_total)
qed

text \<open>
  C2 says that the counts of the frequency table add up to the number of occurrences
  of the scan. On the text CR LF the table counts two code points and the scan reports
  one: the loop of \<open>findNonPrintableWithPositions\<close> steps over the LINE FEED without
  testing it.
\<close>

theorem count_conservation_fails_at_CRLF:
  "sum_list (map count (summarizeNonPrintable unicode14 [0x0D, 0x0A])) = 2
   \<and> length (findNonPrintableWithPositions unicode14 [0x0D, 0x0A]) = 1"
proof -
  have "length (findNonPrintable unicode14 [0x0D, 0x0A]) = 2"
    by (simp add: findNonPrintable_def matchAll_unit matchAll_Nil isLeadingSurrogate_def
          NON_PRINTABLE_REGEX_def unicode14_samples)
  moreover have "length (findNonPrintableWithPositions unicode14 [0x0D, 0x0A]) = 1"
    by (simp add: findNonPrintableWithPositions_def scan_loop_CRLF scan_loop_Nil
          NON_PRINTABLE_REGEX_def unicode14_samples)
  ultimately show ?thesis by (simp add: summarize_count_total)
qed

text \<open>
  C3 says that the flat list is the scan without lines and columns. On the text CR LF
  \<open>findNonPrintable\<close> lists both code points and the scan, stripped, only the first.
\<close>

theorem flat_list_differs_at_CRLF:
  "findNonPrintable unicode14 [0x0D, 0x0A]
     = [\<lparr> index = 0, char = [0x0D], codePoint = 0x0d, name = ''CARRIAGE RETURN'',
           category = ''Cc'' \<rparr>,
        \<lparr> index = 1, char = [0x0A], codePoint = 0x0a, name = ''LINE FEED'',
           category = ''Cc'' \<rparr>]
   \<and> map NonPrintableMatch.truncate (findNonPrintableWithPositions unicode14 [0x0D, 0x0A])
     = [\<lparr> index = 0, char = [0x0D], codePoint = 0x0d, name = ''CARRIAGE RETURN'',
           category = ''Cc'' \<rparr>]"
  by (simp add: findNonPrintable_def matchAll_unit matchAll_Nil isLeadingSurrogate_def
        NON_PRINTABLE_REGEX_def unicode14_samples codePointAt_single
        findNonPrintableWithPositions_def scan_loop_CRLF scan_loop_Nil
        nameOf_def categoryOf_def NAMED_def NonPrintableMatch.truncate_def)

section \<open>Scenario 2 of the specification\<close>

lemma unicode14_cafe:
  "unicode14 0x63 = NotC" "unicode14 0x66 = NotC" "unicode14 0xe9 = NotC"
  "unicode14 0x77 = NotC" "unicode14 0x6f = NotC" "unicode14 0x72 = NotC"
  "unicode14 0x64 = NotC"
  by (simp_all add: unicode14_def C_ranges_def)

lemma scan_cafe:
  "findNonPrintableWithPositions unicode14
     [0x63, 0x61, 0x66, 0xE9, 0x0D, 0x0A, 0xA0, 0x77, 0x6F, 0x72, 0x64]
   = [\<lparr> index = 4, char = [0x0D], codePoint = 0x0d, name = ''CARRIAGE RETURN'',
         category = ''Cc'', line = 1, column = 5 \<rparr>]"
  by (simp add: findNonPrintableWithPositions_def scan_loop_unit scan_loop_CRLF scan_loop_Nil
        isLeadingSurrogate_def NON_PRINTABLE_REGEX_def unicode14_samples unicode14_cafe
        nameOf_def categoryOf_def NAMED_def)

text \<open>The same text with SOFT HYPHEN (category Cf) in the place of the NO-BREAK SPACE.\<close>

lemma scan_cafe_soft_hyphen:
  "findNonPrintableWithPositions unicode14
     [0x63, 0x61, 0x66, 0xE9, 0x0D, 0x0A, 0xAD, 0x77, 0x6F, 0x72, 0x64]
   = [\<lparr> index = 4, char = [0x0D], codePoint = 0x0d, name = ''CARRIAGE RETURN'',
         category = ''Cc'', line = 1, column = 5 \<rparr>,
      \<lparr> index = 6, char = [0xAD], codePoint = 0xad, name = ''SOFT HYPHEN'',
         category = ''Cf'', line = 2, column = 1 \<rparr>]"
  by (simp add: findNonPrintableWithPositions_def scan_loop_unit scan_loop_CRLF scan_loop_Nil
        isLeadingSurrogate_def NON_PRINTABLE_REGEX_def unicode14_samples unicode14_cafe
        nameOf_def categoryOf_def NAMED_def)

text \<open>
  Cleaning the text of the scenario with \<open>nbspToSpace\<close> set and CARRIAGE RETURN and
  LINE FEED kept (preserved, or \<open>removeCc\<close> unset) gives the text the scenario expects.
\<close>

lemma scenario2_clean:
  assumes "nbspToSpace options"
    and "preserveCR options \<or> \<not> removeCc options"
    and "preserveLF options \<or> \<not> removeCc options"
  shows "cleanText unicode14 [0x63, 0x61, 0x66, 0xE9, 0x0D, 0x0A, 0xA0, 0x77, 0x6F, 0x72, 0x64]
           options
         = [0x63, 0x61, 0x66, 0xE9, 0x0D, 0x0A, 0x20, 0x77, 0x6F, 0x72, 0x64]"
proof -
  have keep: "\<And>u. u \<in> {0x63, 0x61, 0x66, 0xE9, 0x77, 0x6F, 0x72, 0x64 :: 16 word} \<Longrightarrow>
                 clean_emit unicode14 options (unat u) [u] = [u]"
    by (rule clean_emit_unnamed) (auto simp: NAMED_def DASH_MAP_def QUOTE_MAP_def)
  have nbsp: "clean_emit unicode14 options 0xa0 [0xA0] = [0x20]"
    using assms(1) by (simp add: clean_emit_def lit_def)
  have cr: "clean_emit unicode14 options 0x0d [0x0D] = [0x0D]"
    using assms(2)
    by (auto simp: clean_emit_def DASH_MAP_def QUOTE_MAP_def NON_PRINTABLE_REGEX_def
          unicode14_samples categoryOf_def NAMED_def)
  have lf: "clean_emit unicode14 options 0x0a [0x0A] = [0x0A]"
    using assms(3)
    by (auto simp: clean_emit_def DASH_MAP_def QUOTE_MAP_def NON_PRINTABLE_REGEX_def
          unicode14_samples categoryOf_def NAMED_def)
  show ?thesis
    using keep [of "0x63"] keep [of "0x61"] keep [of "0x66"] keep [of "0xE9"]
      keep [of "0x77"] keep [of "0x6F"] keep [of "0x72"] keep [of "0x64"] nbsp cr lf
    by (simp add: cleanText_def cleanText_loop_unit cleanText_loop_Nil isLeadingSurrogate_def)
qed

text \<open>
  C4 says that for \<open>"caf\u00e9\r\n\u00a0word"\<close> cleaning with \<open>nbspToSpace\<close> gives
  \<open>"caf\u00e9\r\n word"\<close> and the scan reports the NO-BREAK SPACE as an occurrence at
  line 2, column 1. Cleaning gives that text (here with the default options and
  CARRIAGE RETURN preserved). The scan returns one occurrence, the CARRIAGE RETURN at
  line 1, column 5, and not the NO-BREAK SPACE: its general category is Zs and the
  expression names only Cc, Cf, Cs, Co, Cn, although \<open>NAMED\<close> and \<open>classifyToken\<close>
  provide for it. The line and column of the scan are right at that offset: with
  SOFT HYPHEN in the place of the NO-BREAK SPACE it reports line 2, column 1.
\<close>

theorem scenario2_NBSP_not_reported:
  "findNonPrintableWithPositions unicode14
     [0x63, 0x61, 0x66, 0xE9, 0x0D, 0x0A, 0xA0, 0x77, 0x6F, 0x72, 0x64]
   = [\<lparr> index = 4, char = [0x0D], codePoint = 0x0d, name = ''CARRIAGE RETURN'',
         category = ''Cc'', line = 1, column = 5 \<rparr>]
   \<and> \<lparr> index = 6, char = [0xA0], codePoint = 0xa0, name = ''NO-BREAK SPACE'',
        category = ''Zs'', line = 2, column = 1 \<rparr>
     \<notin> set (findNonPrintableWithPositions unicode14
              [0x63, 0x61, 0x66, 0xE9, 0x0D, 0x0A, 0xA0, 0x77, 0x6F, 0x72, 0x64])
   \<and> findNonPrintableWithPositions unicode14
       [0x63, 0x61, 0x66, 0xE9, 0x0D, 0x0A, 0xAD, 0x77, 0x6F, 0x72, 0x64]
     = [\<lparr> index = 4, char = [0x0D], codePoint = 0x0d, name = ''CARRIAGE RETURN'',
           category = ''Cc'', line = 1, column = 5 \<rparr>,
        \<lparr> index = 6, char = [0xAD], codePoint = 0xad, name = ''SOFT HYPHEN'',
           category = ''Cf'', line = 2, column = 1 \<rparr>]
   \<and> cleanText unicode14 [0x63, 0x61, 0x66, 0xE9, 0x0D, 0x0A, 0xA0, 0x77, 0x6F, 0x72, 0x64]
        (defaultCleanOptions \<lparr> preserveCR := True \<rparr>)
     = [0x63, 0x61, 0x66, 0xE9, 0x0D, 0x0A, 0x20, 0x77, 0x6F, 0x72, 0x64]"
proof -
  have "cleanText unicode14 [0x63, 0x61, 0x66, 0xE9, 0x0D, 0x0A, 0xA0, 0x77, 0x6F, 0x72, 0x64]
        (defaultCleanOptions \<lparr> preserveCR := True \<rparr>)
     = [0x63, 0x61, 0x66, 0xE9, 0x0D, 0x0A, 0x20, 0x77, 0x6F, 0x72, 0x64]"
    by (rule scenario2_clean) (simp_all add: defaultCleanOptions_def)
  then show ?thesis
    unfolding scan_cafe scan_cafe_soft_hyphen by simp
qed

end
